theory Spec2Isabelle
  imports Main "HOL-Library.Word" "HOL-Library.Sublist"
begin

unbundle bit_operations_syntax

section \<open>Bytes, Python errors and Python string primitives\<close>

type_synonym byte = "8 word"

text \<open>The exceptions that the modelled functions of \<^verbatim>\<open>pop-fe.py\<close> can raise.\<close>

datatype py_error =
    ValueError
  | TypeError
  | KeyError
  | StructError
  | FileNotFoundError
  | FetchFailed

definition bind_err :: "'e + 'a \<Rightarrow> ('a \<Rightarrow> 'e + 'b) \<Rightarrow> 'e + 'b" where
  "bind_err m f = (case m of Inl e \<Rightarrow> Inl e | Inr x \<Rightarrow> f x)"

text \<open>\<^verbatim>\<open>re.search('^p', s)\<close> without flags: \<open>s\<close> begins with the literal \<open>p\<close>.\<close>

definition startswith :: "'a list \<Rightarrow> 'a list \<Rightarrow> bool" where
  "startswith p s = (take (length p) s = p)"

text \<open>\<^verbatim>\<open>s.find(sub)\<close>: the lowest index where \<open>sub\<close> occurs, \<open>-1\<close> when it does not.\<close>

fun find_at :: "'a list \<Rightarrow> 'a list \<Rightarrow> nat \<Rightarrow> int" where
  "find_at sub [] k = (if sub = [] then int k else - 1)"
| "find_at sub (x # xs) k =
     (if startswith sub (x # xs) then int k else find_at sub xs (Suc k))"

definition py_find :: "'a list \<Rightarrow> 'a list \<Rightarrow> int" where
  "py_find s sub = find_at sub s 0"

text \<open>Slices \<^verbatim>\<open>s[a:b]\<close> with \<open>0 \<le> a \<le> b\<close> literal, \<^verbatim>\<open>s[i:]\<close> and \<^verbatim>\<open>s[:i]\<close> with a
  computed \<open>i\<close>, which Python counts from the end when it is negative.\<close>

definition py_slice :: "'a list \<Rightarrow> nat \<Rightarrow> nat \<Rightarrow> 'a list" where
  "py_slice s a b = take (b - a) (drop a s)"

definition py_index :: "'a list \<Rightarrow> int \<Rightarrow> nat" where
  "py_index s i = (if i < 0 then nat (int (length s) + i) else nat i)"

definition slice_from :: "'a list \<Rightarrow> int \<Rightarrow> 'a list" where
  "slice_from s i = drop (py_index s i) s"

definition slice_to :: "'a list \<Rightarrow> int \<Rightarrow> 'a list" where
  "slice_to s i = take (py_index s i) s"

text \<open>
  \<^verbatim>\<open>int(s)\<close> on text whose characters are code points below 256. Blanks around the
  number are dropped: tab, line feed, vertical tab, form feed, carriage return and space,
  and the two blanks outside ASCII, U+0085 and U+00A0 (the separators \<open>0x1c\<close> to \<open>0x1f\<close>
  are not blanks for \<^verbatim>\<open>int\<close>). One sign is allowed, then decimal digits, where single
  underscores may stand between digits; more than 4300 digits are refused. Anything else
  raises \<^verbatim>\<open>ValueError\<close>.
\<close>

definition is_space :: "char \<Rightarrow> bool" where
  "is_space c =
     (let n = (of_char c :: nat) in (9 \<le> n \<and> n \<le> 13) \<or> n = 32 \<or> n = 133 \<or> n = 160)"

definition is_digit :: "char \<Rightarrow> bool" where
  "is_digit c = (let n = (of_char c :: nat) in 48 \<le> n \<and> n \<le> 57)"

definition digit_val :: "char \<Rightarrow> int" where
  "digit_val c = int (of_char c) - 48"

definition py_strip :: "string \<Rightarrow> string" where
  "py_strip s = rev (dropWhile is_space (rev (dropWhile is_space s)))"

fun digits_value :: "string \<Rightarrow> int \<Rightarrow> int option" where
  "digits_value [] acc = Some acc"
| "digits_value (c # cs) acc =
     (if is_digit c then digits_value cs (10 * acc + digit_val c)
      else if c = CHR ''_'' then
        (case cs of
           [] \<Rightarrow> None
         | d # _ \<Rightarrow> if is_digit d then digits_value cs acc else None)
      else None)"

definition unsigned_value :: "string \<Rightarrow> int option" where
  "unsigned_value u =
     (case u of
        [] \<Rightarrow> None
      | c # _ \<Rightarrow>
          if is_digit c \<and> length (filter is_digit u) \<le> 4300 then digits_value u 0 else None)"

definition py_int :: "string \<Rightarrow> int option" where
  "py_int s =
     (case py_strip s of
        [] \<Rightarrow> None
      | c # r \<Rightarrow>
          if c = CHR ''-'' then map_option uminus (unsigned_value r)
          else if c = CHR ''+'' then unsigned_value r
          else unsigned_value (c # r))"

definition int_of_str :: "string \<Rightarrow> py_error + int" where
  "int_of_str s = (case py_int s of None \<Rightarrow> Inl ValueError | Some v \<Rightarrow> Inr v)"

section \<open>BCD codec (nested function \<^verbatim>\<open>bcd\<close> of \<^verbatim>\<open>get_toc_from_cu2\<close>)\<close>

text \<open>
  \<^verbatim>\<open>int(x / 10)\<close>: Python divides as floats and \<^verbatim>\<open>int\<close> truncates towards zero.
  For \<open>\<bar>i\<bar> < 2^53\<close> the float quotient is close enough to the exact one that the
  truncation is the exact truncated quotient, which is what is written here. From
  \<open>2^53\<close> on the float quotient may differ, and beyond the range of floats the division
  raises \<^verbatim>\<open>OverflowError\<close>: the properties below are stated for values under \<open>2^53\<close>.
\<close>

definition trunc_div10 :: "int \<Rightarrow> int" where
  "trunc_div10 i = (if 0 \<le> i then i div 10 else - ((- i) div 10))"

text \<open>\<^verbatim>\<open>def bcd(i): return int(i % 10) + 16 * (int(i / 10) % 10)\<close>\<close>

definition bcd :: "int \<Rightarrow> int" where
  "bcd i = (i mod 10) + 16 * (trunc_div10 i mod 10)"

text \<open>The decoder as the specification words it: \<^verbatim>\<open>(b & 0xF) + 10*(b >> 4)\<close>.\<close>

definition decode_bcd :: "int \<Rightarrow> int" where
  "decode_bcd b = (b AND 0xF) + 10 * (drop_bit 4 b)"

section \<open>TOC synthesis: \<^verbatim>\<open>get_toc_from_cu2\<close>\<close>

definition toc_header :: "byte list" where
  "toc_header =
     [0x41, 0x00, 0xa0, 0x00, 0x00, 0x00, 0x00, 0x01, 0x20, 0x00,
      0x01, 0x00, 0xa1, 0x00, 0x00, 0x00, 0x00, 0x00, 0x00, 0x00,
      0x01, 0x00, 0xa2, 0x00, 0x00, 0x00, 0x00, 0x00, 0x00, 0x00]"

text \<open>
  Storing \<open>bcd x\<close> into a \<^verbatim>\<open>bytearray\<close> cell. The store raises unless the value is in
  \<open>0..255\<close>; \<open>bcd\<close> never leaves \<open>0..153\<close> (lemma \<open>bcd_range\<close> below), so the
  store is a plain conversion.
\<close>

definition bcd_byte :: "int \<Rightarrow> byte" where
  "bcd_byte x = word_of_int (bcd x)"

text \<open>The first loop: the last \<^verbatim>\<open>ntracks\<close> and \<^verbatim>\<open>trk end\<close> lines win.\<close>

fun scan_header :: "string list \<Rightarrow> int option \<Rightarrow> string option
                    \<Rightarrow> py_error + (int option \<times> string option)" where
  "scan_header [] num_tracks trk_end = Inr (num_tracks, trk_end)"
| "scan_header (line # lines) num_tracks trk_end =
     bind_err
       (if startswith ''ntracks'' line
        then bind_err (int_of_str (drop 7 line)) (\<lambda>n. Inr (Some n))
        else Inr num_tracks)
       (\<lambda>num_tracks'.
          scan_header lines num_tracks'
            (if startswith ''trk end'' line then Some (drop 10 line) else trk_end))"

definition is_track_line :: "string \<Rightarrow> bool" where
  "is_track_line line = (startswith ''data'' line \<or> startswith ''track'' line)"

text \<open>The second loop: one reused 10-byte buffer, appended to the TOC per track line.\<close>

fun track_loop :: "string list \<Rightarrow> byte list \<Rightarrow> int \<Rightarrow> byte list
                   \<Rightarrow> py_error + byte list" where
  "track_loop [] buf track toc = Inr toc"
| "track_loop (line # lines) buf track toc =
     (if \<not> startswith ''data'' line \<and> \<not> startswith ''track'' line
      then track_loop lines buf track toc
      else
        let msf = drop 10 line;
            buf0 = buf[0 := (if track = 1 then 0x41 else 0x01)];
            buf2 = buf0[2 := bcd_byte track]
        in bind_err (int_of_str (py_slice msf 0 2)) (\<lambda>m.
           bind_err (int_of_str (py_slice msf 3 5)) (\<lambda>s.
           bind_err (int_of_str (py_slice msf 6 8)) (\<lambda>f.
             let buf9 = buf2[7 := bcd_byte m, 8 := bcd_byte s, 9 := bcd_byte f]
             in track_loop lines buf9 (track + 1) (toc @ buf9)))))"

definition get_toc_from_cu2 :: "string list \<Rightarrow> py_error + byte list" where
  "get_toc_from_cu2 lines =
     bind_err (scan_header lines None None) (\<lambda>(num_tracks, trk_end).
       case num_tracks of
         None \<Rightarrow> Inl TypeError
       | Some n \<Rightarrow>
           let toc17 = toc_header[17 := bcd_byte n] in
           (case trk_end of
              None \<Rightarrow> Inl TypeError
            | Some e \<Rightarrow>
                bind_err (int_of_str (py_slice e 0 2)) (\<lambda>m.
                bind_err (int_of_str (py_slice e 3 5)) (\<lambda>s.
                bind_err (int_of_str (py_slice e 6 8)) (\<lambda>f.
                  let toc29 = toc17[27 := bcd_byte m, 28 := bcd_byte s, 29 := bcd_byte f]
                  in track_loop lines (replicate 10 0) 1 toc29)))))"

subsection \<open>Well-formed CU2 descriptors and the record layout\<close>

text \<open>
  The three fields \<^verbatim>\<open>t[:2]\<close>, \<^verbatim>\<open>t[3:5]\<close>, \<^verbatim>\<open>t[6:8]\<close> of an \<open>MM:SS:FF\<close> text, each read
  with \<^verbatim>\<open>int\<close>, as the code reads \<^verbatim>\<open>trk_end\<close> and \<^verbatim>\<open>msf\<close>.
\<close>

definition parse_msf :: "string \<Rightarrow> (int \<times> int \<times> int) option" where
  "parse_msf t =
     (case py_int (py_slice t 0 2) of
        None \<Rightarrow> None
      | Some m \<Rightarrow>
          (case py_int (py_slice t 3 5) of
             None \<Rightarrow> None
           | Some s \<Rightarrow>
               (case py_int (py_slice t 6 8) of
                  None \<Rightarrow> None
                | Some f \<Rightarrow> Some (m, s, f))))"

definition track_lines :: "string list \<Rightarrow> string list" where
  "track_lines lines = filter is_track_line lines"

text \<open>
  A well-formed descriptor: one \<^verbatim>\<open>ntracks\<close> line whose text from column 7 reads as \<open>N\<close>,
  one \<^verbatim>\<open>trk end\<close> line whose text from column 10 reads as the MSF \<open>e\<close>, and \<open>N\<close> lines
  beginning \<^verbatim>\<open>data\<close> or \<^verbatim>\<open>track\<close>, each with an MSF from column 10.
\<close>

definition wf_cu2 :: "string list \<Rightarrow> int \<Rightarrow> (int \<times> int \<times> int) \<Rightarrow> bool" where
  "wf_cu2 lines N e \<longleftrightarrow>
     map (\<lambda>l. py_int (drop 7 l)) (filter (startswith ''ntracks'') lines) = [Some N] \<and>
     map (\<lambda>l. parse_msf (drop 10 l)) (filter (startswith ''trk end'') lines) = [Some e] \<and>
     list_all (\<lambda>l. parse_msf (drop 10 l) \<noteq> None) (track_lines lines) \<and>
     int (length (track_lines lines)) = N"

text \<open>
  A descriptor that the function reads to the end: every \<^verbatim>\<open>ntracks\<close> line reads as an
  integer and there is one at least, the last of them, whose value is stored, being under
  \<open>2^53\<close> in size; there is a \<^verbatim>\<open>trk end\<close> line and the last of them holds an MSF at
  column 10; every line beginning \<^verbatim>\<open>data\<close> or \<^verbatim>\<open>track\<close> holds an MSF at column 10. The
  count that the \<^verbatim>\<open>ntracks\<close> line declares need not be the number of track lines.
\<close>

definition cu2_parses :: "string list \<Rightarrow> bool" where
  "cu2_parses lines \<longleftrightarrow>
     (let nts = filter (startswith ''ntracks'') lines;
          tes = filter (startswith ''trk end'') lines
      in nts \<noteq> [] \<and>
         list_all (\<lambda>l. py_int (drop 7 l) \<noteq> None) nts \<and>
         (case py_int (drop 7 (last nts)) of
            None \<Rightarrow> False
          | Some n \<Rightarrow> \<bar>n\<bar> < 2 ^ 53) \<and>
         tes \<noteq> [] \<and>
         parse_msf (drop 10 (last tes)) \<noteq> None \<and>
         list_all (\<lambda>l. parse_msf (drop 10 l) \<noteq> None) (track_lines lines))"

text \<open>The record the loop appends for track number \<open>k\<close> with start \<open>msf\<close>.\<close>

definition record_of :: "int \<Rightarrow> (int \<times> int \<times> int) \<Rightarrow> byte list" where
  "record_of k msf =
     (case msf of (m, s, f) \<Rightarrow>
        [if k = 1 then 0x41 else 0x01, 0, bcd_byte k, 0, 0, 0, 0,
         bcd_byte m, bcd_byte s, bcd_byte f])"

fun track_records :: "int \<Rightarrow> (int \<times> int \<times> int) list \<Rightarrow> byte list" where
  "track_records k [] = []"
| "track_records k (x # xs) = record_of k x @ track_records (k + 1) xs"

text \<open>The value a variable holds after a loop that overwrites it at each match.\<close>

fun last_or :: "'a list \<Rightarrow> 'a option \<Rightarrow> 'a option" where
  "last_or [] d = d"
| "last_or (x # xs) d = last_or xs (Some x)"

text \<open>The cells of the reused buffer that the loop never writes stay zero.\<close>

definition buf_shape :: "byte list \<Rightarrow> bool" where
  "buf_shape buf \<longleftrightarrow> (\<exists>a b c d e. buf = [a, 0, b, 0, 0, 0, 0, c, d, e])"

text \<open>A one-track descriptor in the column layout that the code reads.\<close>

definition cu2_example :: "string list" where
  "cu2_example =
     [''ntracks 1'' @ [CHR 0x0A],
      ''size      01:00:03'' @ [CHR 0x0A],
      ''data1     00:02:00'' @ [CHR 0x0A],
      ''trk end   01:02:03'' @ [CHR 0x0A]]"

text \<open>A descriptor with a data track and an audio track.\<close>

definition cu2_two_tracks :: "string list" where
  "cu2_two_tracks =
     [''ntracks 2'' @ [CHR 0x0A],
      ''size      10:00:00'' @ [CHR 0x0A],
      ''data1     00:02:00'' @ [CHR 0x0A],
      ''track02   05:10:20'' @ [CHR 0x0A],
      ''trk end   10:02:00'' @ [CHR 0x0A]]"

text \<open>The descriptor of the end-to-end example: one \<^verbatim>\<open>track\<close> line at \<open>00:00:00\<close>, end of
  disc \<open>01:02:03\<close>.\<close>

definition cu2_one_track :: "string list" where
  "cu2_one_track =
     [''ntracks 1'' @ [CHR 0x0A],
      ''size      01:02:03'' @ [CHR 0x0A],
      ''track01   00:00:00'' @ [CHR 0x0A],
      ''trk end   01:02:03'' @ [CHR 0x0A]]"

text \<open>The same descriptor with the fields written \<^verbatim>\<open>name=value\<close>.\<close>

definition cu2_equals_signs :: "string list" where
  "cu2_equals_signs =
     [''ntracks=1'' @ [CHR 0x0A],
      ''track=00:00:00'' @ [CHR 0x0A],
      ''trk end=01:02:03'' @ [CHR 0x0A]]"

text \<open>
  The record as the specification words it: flag, track number, three zero bytes, start
  MSF (then one reserved byte, whose value it leaves open).
\<close>

definition claimed_record_fields :: "int \<Rightarrow> (int \<times> int \<times> int) \<Rightarrow> byte list" where
  "claimed_record_fields k msf =
     (case msf of (m, s, f) \<Rightarrow>
        [if k = 1 then 0x41 else 0x01, bcd_byte k, 0, 0, 0,
         bcd_byte m, bcd_byte s, bcd_byte f])"

definition cu2_example_toc :: "byte list" where
  "cu2_example_toc =
     [0x41, 0x00, 0xa0, 0x00, 0x00, 0x00, 0x00, 0x01, 0x20, 0x00,
      0x01, 0x00, 0xa1, 0x00, 0x00, 0x00, 0x00, 0x01, 0x00, 0x00,
      0x01, 0x00, 0xa2, 0x00, 0x00, 0x00, 0x00, 0x01, 0x02, 0x03,
      0x41, 0x00, 0x01, 0x00, 0x00, 0x00, 0x00, 0x00, 0x02, 0x00]"

section \<open>Binary files\<close>

text \<open>
  An open binary file: its bytes and the position of the next read or write.
  \<^verbatim>\<open>read(n)\<close> returns what is left up to \<open>n\<close> bytes; \<^verbatim>\<open>write\<close> overwrites in place,
  grows the file at its end and fills a gap left by a seek past the end with zeros.
\<close>

record pyfile =
  content :: "byte list"
  fpos :: nat

definition f_open :: "byte list \<Rightarrow> pyfile" where
  "f_open bs = \<lparr>content = bs, fpos = 0\<rparr>"

definition f_seek :: "nat \<Rightarrow> pyfile \<Rightarrow> pyfile" where
  "f_seek p f = f\<lparr>fpos := p\<rparr>"

definition f_tell :: "pyfile \<Rightarrow> nat" where
  "f_tell f = fpos f"

definition f_read :: "nat \<Rightarrow> pyfile \<Rightarrow> byte list \<times> pyfile" where
  "f_read n f =
     (let got = take n (drop (fpos f) (content f))
      in (got, f\<lparr>fpos := fpos f + length got\<rparr>))"

definition write_at :: "nat \<Rightarrow> byte list \<Rightarrow> byte list \<Rightarrow> byte list" where
  "write_at p d c =
     (if d = [] then c
      else let padded = c @ replicate (p - length c) 0
           in take p padded @ d @ drop (p + length d) padded)"

definition f_write :: "byte list \<Rightarrow> pyfile \<Rightarrow> pyfile" where
  "f_write d f = \<lparr>content = write_at (fpos f) d (content f), fpos = fpos f + length d\<rparr>"

text \<open>\<^verbatim>\<open>range(a, b, step)\<close> for \<open>0 < step\<close>.\<close>

definition py_range :: "nat \<Rightarrow> nat \<Rightarrow> nat \<Rightarrow> nat list" where
  "py_range a b step = map (\<lambda>k. a + k * step) [0..<(b - a + step - 1) div step]"

section \<open>Memory cards: \<^verbatim>\<open>check_memory_card\<close> and \<^verbatim>\<open>create_blank_mc\<close>\<close>

text \<open>
  \<^verbatim>\<open>check_memory_card(f)\<close> on a file with bytes \<open>bs\<close>. No branch raises; a size that no
  test matches falls off the end of the function, which returns \<^verbatim>\<open>None\<close>.
\<close>

definition check_memory_card :: "byte list \<Rightarrow> py_error + byte list list option" where
  "check_memory_card bs =
     (if length bs = 131072 then
        (let mc = f_open bs; (a, mc) = f_read 131072 mc in Inr (Some [a]))
      else if length bs = 131200 then
        (let mc = f_seek 0x80 (f_open bs); (a, mc) = f_read 131072 mc in Inr (Some [a]))
      else if length bs = 131136 then
        (let mc = f_seek 0x40 (f_open bs); (a, mc) = f_read 131072 mc in Inr (Some [a]))
      else if length bs = 262144 then
        (let mc = f_open bs; (a, mc) = f_read 131072 mc; (b, mc) = f_read 131072 mc
         in Inr (Some [a, b]))
      else if length bs = 134976 then
        (let mc = f_seek 0xf40 (f_open bs); (a, mc) = f_read 131072 mc in Inr (Some [a]))
      else Inr None)"

text \<open>
  The first statement of the loop over the input files in the main program:
  \<^verbatim>\<open>
  for cue_file in args.files:
      if os.stat(cue_file).st_size <= 262144:
          mc = check_memory_card(cue_file)
          if mc:
              for i in mc: mem_cards.append(i)
              continue
      ...
  \<close>
  It either ends this turn of the loop with \<^verbatim>\<open>continue\<close>, the images appended to
  \<^verbatim>\<open>mem_cards\<close>, or falls through to the rest of the body with the same file. The rest
  of the body is not part of the model.
\<close>

datatype gate =
    Next_input "byte list list"
  | Rest_of_body "byte list list"

definition memory_card_gate :: "byte list \<Rightarrow> byte list list \<Rightarrow> py_error + gate" where
  "memory_card_gate cue_file mem_cards =
     (if length cue_file \<le> 262144 then
        bind_err (check_memory_card cue_file) (\<lambda>mc.
          case mc of
            None \<Rightarrow> Inr (Rest_of_body mem_cards)
          | Some imgs \<Rightarrow>
              if imgs \<noteq> [] then Inr (Next_input (mem_cards @ imgs))
              else Inr (Rest_of_body mem_cards))
      else Inr (Rest_of_body mem_cards))"

text \<open>The table that the specification gives for the recognised dumps:
  file size, bytes to skip, number of 131072-byte images.\<close>

definition mc_formats :: "(nat \<times> nat \<times> nat) list" where
  "mc_formats =
     [(131072, 0, 1), (131200, 128, 1), (131136, 64, 1), (262144, 0, 2), (134976, 3904, 1)]"

definition mc_images :: "byte list \<Rightarrow> nat \<Rightarrow> nat \<Rightarrow> byte list list" where
  "mc_images bs skip n =
     map (\<lambda>j. py_slice bs (skip + j * 131072) (skip + (j + 1) * 131072)) [0..<n]"

text \<open>The file sizes that the specification lists as recognised.\<close>

definition mc_sizes :: "nat set" where
  "mc_sizes = {131072, 131200, 131136, 262144, 134976}"

text \<open>The four fixed patterns of \<^verbatim>\<open>create_blank_mc\<close>.\<close>

definition mc_frame_first :: "byte list" where
  "mc_frame_first =
     [0x00, 0x00, 0x00, 0x00, 0x00, 0x00, 0x00, 0x00,
      0x00, 0x00, 0x00, 0x00, 0x00, 0x00, 0x00, 0x0e,
      0xa0, 0x00, 0x00, 0x00, 0x00, 0x00, 0x00, 0x00,
      0xff, 0xff, 0x00, 0x00, 0x00, 0x00, 0x00, 0x00]"

definition mc_frame_dir :: "byte list" where
  "mc_frame_dir =
     [0x00, 0x00, 0x00, 0x00, 0x00, 0x00, 0x00, 0x00,
      0x00, 0x00, 0x00, 0x00, 0x00, 0x00, 0x00, 0xa0,
      0xa0, 0x00, 0x00, 0x00, 0x00, 0x00, 0x00, 0x00,
      0xff, 0xff, 0x00, 0x00, 0x00, 0x00, 0x00, 0x00]"

definition mc_frame_last :: "byte list" where
  "mc_frame_last =
     [0x00, 0x00, 0x00, 0x00, 0x00, 0x00, 0x00, 0x00,
      0x00, 0x00, 0x00, 0x00, 0x00, 0x00, 0x00, 0xa0,
      0xff, 0xff, 0xff, 0xff, 0x00, 0x00, 0x00, 0x00,
      0xff, 0xff, 0x00, 0x00, 0x00, 0x00, 0x00, 0x00]"

definition mc_frame_broken :: "byte list" where
  "mc_frame_broken =
     [0xff, 0xff, 0xff, 0xff, 0x00, 0x00, 0x00, 0x00,
      0xff, 0xff, 0x00, 0x00, 0x00, 0x00, 0x00, 0x00]"

text \<open>
  \<^verbatim>\<open>create_blank_mc(mc)\<close>: the file is opened with mode \<^verbatim>\<open>"wb"\<close>, so it starts empty; the
  result is its content when the \<^verbatim>\<open>with\<close> block closes it. \<^verbatim>\<open>bytes(1)\<close> is one zero byte
  and \<^verbatim>\<open>bytearray(2)\<close> two of them.
\<close>

definition create_blank_mc :: "byte list" where
  "create_blank_mc =
     (let f = f_open [];
          f = f_seek 131071 f;
          f = f_write (replicate 1 0) f;
          f = f_seek 0 f;
          buf = (replicate 2 0)[0 := 0x4d, 1 := 0x43];
          f = f_write buf f;
          f = f_seek 0x70 f;
          f = f_write mc_frame_first f;
          f = fold (\<lambda>i f. f_write mc_frame_dir (f_seek i f)) (py_range 0xf0 0x780 0x80) f;
          f = f_seek 0x7f0 f;
          f = f_write mc_frame_last f;
          f = fold (\<lambda>i f. f_write mc_frame_broken (f_seek i f)) (py_range 0x880 0x1190 0x80) f
      in content f)"

text \<open>The image as one concatenation: magic, gaps of zeros and the patterns at a
  cadence of \<open>0x80\<close> bytes.\<close>

definition zeros :: "nat \<Rightarrow> byte list" where
  "zeros n = replicate n 0"

definition blank_mc_layout :: "byte list" where
  "blank_mc_layout =
     [0x4d, 0x43] @ zeros (0x70 - 2) @
     mc_frame_first @ zeros (0xf0 - 0x90) @
     concat (replicate 14 (mc_frame_dir @ zeros (0x80 - 32))) @
     mc_frame_last @ zeros (0x880 - 0x810) @
     concat (replicate 19 (mc_frame_broken @ zeros (0x80 - 16))) @
     zeros (131072 - 0x1200)"

section \<open>Copy-protection patching: the automatic mode of \<^verbatim>\<open>apply_ppf\<close>\<close>

definition libcrypt_signature :: "byte list" where
  "libcrypt_signature = [0x25, 0x30, 0x86, 0x00]"

text \<open>
  \<^verbatim>\<open>struct.pack_into('<H', buf, offset, v)\<close>: two bytes, low byte first, stored at
  \<open>offset\<close>. It raises \<^verbatim>\<open>struct.error\<close> when \<open>v\<close> is outside \<open>0..65535\<close> or the two bytes
  do not fit into the buffer.
\<close>

definition le16 :: "int \<Rightarrow> byte list" where
  "le16 v = [word_of_int (v mod 256), word_of_int (v div 256)]"

definition pack_into_H :: "byte list \<Rightarrow> nat \<Rightarrow> int \<Rightarrow> py_error + byte list" where
  "pack_into_H buf offset v =
     (if v < 0 \<or> 65535 < v then Inl StructError
      else if length buf < offset + 2 then Inl StructError
      else Inr (take offset buf @ le16 v @ drop (offset + 2) buf))"

text \<open>The two stores made on a hit at \<open>pos\<close>.\<close>

definition patch_signature :: "byte list \<Rightarrow> nat \<Rightarrow> int \<Rightarrow> py_error + byte list" where
  "patch_signature buf pos magic_word =
     bind_err (pack_into_H buf pos magic_word) (\<lambda>buf1.
       pack_into_H buf1 (pos + 2) 0x34c6)"

text \<open>
  The \<^verbatim>\<open>while True\<close> loop over the open image file. \<open>out\<close> collects the lines printed.
  When a store raises, the exception leaves the function; the model then gives the error
  alone.
\<close>

function auto_patch_loop :: "int \<Rightarrow> pyfile \<Rightarrow> string list
                             \<Rightarrow> py_error + (pyfile \<times> string list)" where
  "auto_patch_loop magic_word f out =
     (let off = f_tell f;
          buf = fst (f_read 0x9300 f);
          f1 = snd (f_read 0x9300 f)
      in if buf = [] then Inr (f1, out)
         else
           let pos = py_find buf libcrypt_signature
           in if pos > 0 then
                (case patch_signature buf (nat pos) magic_word of
                   Inl e \<Rightarrow> Inl e
                 | Inr buf2 \<Rightarrow>
                     auto_patch_loop magic_word (f_write buf2 (f_seek off f1))
                       (out @ [''Found libcrypt signature. Patching it'']))
              else auto_patch_loop magic_word f1 out)"
  by pat_completeness auto
termination
proof (relation "measure (\<lambda>(magic_word, f, out). length (content f) - fpos f)", goal_cases)
  case 1
  show ?case by simp
next
  case (2 magic_word f out off buf f1 p buf2)
  from 2 have buf: "buf = take 0x9300 (drop (fpos f) (content f))" and "buf \<noteq> []"
    and off: "off = fpos f" and f1: "f1 = f\<lparr>fpos := fpos f + length buf\<rparr>"
    by (simp_all add: f_read_def f_tell_def Let_def)
  then have lt: "fpos f < length (content f)" and fit: "fpos f + length buf \<le> length (content f)"
    by auto
  from 2 have "patch_signature buf (nat p) magic_word = Inr buf2" by simp
  then have len: "length buf2 = length buf"
    by (auto simp: patch_signature_def pack_into_H_def bind_err_def le16_def
        split: if_splits)
  with \<open>buf \<noteq> []\<close> have ne: "buf2 \<noteq> []" by auto
  have "length (write_at (fpos f) buf2 (content f)) = length (content f)"
    using fit len ne by (simp add: write_at_def Let_def)
  moreover have "0 < length buf" using \<open>buf \<noteq> []\<close> by simp
  with lt have "length (content f) - (fpos f + length buf) < length (content f) - fpos f"
    by arith
  ultimately show ?case
    using len by (simp add: f_write_def f_seek_def off f1)
next
  case (3 magic_word f out off buf f1 p)
  then have buf: "buf = take 0x9300 (drop (fpos f) (content f))" and "buf \<noteq> []"
    and f1: "f1 = f\<lparr>fpos := fpos f + length buf\<rparr>"
    by (simp_all add: f_read_def Let_def)
  then have "fpos f < length (content f)" by auto
  moreover have "0 < length buf" using \<open>buf \<noteq> []\<close> by simp
  ultimately have "length (content f) - (fpos f + length buf) < length (content f) - fpos f"
    by arith
  then show ?case by (simp add: f1)
qed

declare auto_patch_loop.simps [simp del]

text \<open>
  The branch \<^verbatim>\<open>if auto_libcrypt:\<close> on the image file with bytes \<open>data\<close>, opened with mode
  \<^verbatim>\<open>'rb+'\<close>; \<open>name\<close> is its path, which only the first printed line shows.
\<close>

definition apply_ppf_auto :: "string \<Rightarrow> byte list \<Rightarrow> int \<Rightarrow> string list
                              \<Rightarrow> py_error + (byte list \<times> string list)" where
  "apply_ppf_auto name data magic_word out =
     bind_err
       (auto_patch_loop magic_word (f_open data)
          (out @ [''Try to automatically generate libcrypt patch for '' @ name]))
       (\<lambda>(f, out'). Inr (content f, out'))"

text \<open>The scan as the specification describes it: consecutive windows of \<open>n\<close> bytes.\<close>

definition window :: "nat \<Rightarrow> byte list \<Rightarrow> nat \<Rightarrow> byte list" where
  "window n data k = py_slice data (k * n) ((k + 1) * n)"

text \<open>What one window becomes: patched at the first hit when it lies past the first byte.\<close>

definition patch_window :: "int \<Rightarrow> byte list \<Rightarrow> byte list" where
  "patch_window magic_word w =
     (let pos = py_find w libcrypt_signature
      in if pos > 0
         then take (nat pos) w @ le16 magic_word @ le16 0x34c6 @ drop (nat pos + 4) w
         else w)"

function patch_all :: "int \<Rightarrow> byte list \<Rightarrow> byte list" where
  "patch_all magic_word xs =
     (if xs = [] then []
      else patch_window magic_word (take 0x9300 xs) @ patch_all magic_word (drop 0x9300 xs))"
  by pat_completeness auto
termination
  by (relation "measure (\<lambda>(magic_word, xs). length xs)") auto

declare patch_all.simps [simp del]

text \<open>An occurrence of \<open>sub\<close> in \<open>s\<close> that begins at index \<open>i\<close>.\<close>

definition occurs_at :: "'a list \<Rightarrow> 'a list \<Rightarrow> nat \<Rightarrow> bool" where
  "occurs_at sub s i \<longleftrightarrow> i + length sub \<le> length s \<and> py_slice s i (i + length sub) = sub"

text \<open>A small image with two occurrences of the signature in its only window.\<close>

definition two_hits :: "byte list" where
  "two_hits = 0 # libcrypt_signature @ libcrypt_signature"

section \<open>Magic word: \<^verbatim>\<open>generate_magic_word\<close>\<close>

text \<open>
  The answer of \<^verbatim>\<open>requests.get\<close>: the status and the body. For \<^verbatim>\<open>generate_magic_word\<close>
  the body is the text that \<^verbatim>\<open>ret.content.decode(ret.apparent_encoding)\<close> gives.
\<close>

record 'a response =
  status_code :: int
  body :: 'a

text \<open>
  \<^verbatim>\<open>
  b = b[idx:]
  idx = b.find('table')
  b = b[:idx]
  \<close>
  with \<open>idx\<close> the index of the section header. When no \<^verbatim>\<open>table\<close> follows, the second
  \<open>idx\<close> is \<open>-1\<close> and the slice drops the last character.
\<close>

definition protection_section :: "string \<Rightarrow> int \<Rightarrow> string" where
  "protection_section b idx =
     (let b = slice_from b idx;
          idx = py_find b ''table''
      in slice_to b idx)"

text \<open>One of the sixteen tests:
  \<^verbatim>\<open>if b.find(x) > 0 or b.find(y) > 0: mw = mw | v\<close>.\<close>

definition mark :: "string \<Rightarrow> string \<Rightarrow> string \<Rightarrow> int \<Rightarrow> int \<Rightarrow> int" where
  "mark b x y v mw = (if py_find b x > 0 \<or> py_find b y > 0 then mw OR v else mw)"

text \<open>
  The sixteen tests in a row, starting from \<^verbatim>\<open>mw = 0\<close>, on the section \<open>b\<close>.
\<close>

definition probe_markers :: "string \<Rightarrow> int" where
  "probe_markers b =
     (let mw = 0;
          mw = mark b ''<td>14105</td>'' ''<td>14110</td>'' 0x8000 mw;
          mw = mark b ''<td>14231</td>'' ''<td>14236</td>'' 0x4000 mw;
          mw = mark b ''<td>14485</td>'' ''<td>14490</td>'' 0x2000 mw;
          mw = mark b ''<td>14579</td>'' ''<td>14584</td>'' 0x1000 mw;
          mw = mark b ''<td>14649</td>'' ''<td>14654</td>'' 0x0800 mw;
          mw = mark b ''<td>14899</td>'' ''<td>14904</td>'' 0x0400 mw;
          mw = mark b ''<td>15056</td>'' ''<td>15061</td>'' 0x0200 mw;
          mw = mark b ''<td>15130</td>'' ''<td>15135</td>'' 0x0100 mw;
          mw = mark b ''<td>15242</td>'' ''<td>15247</td>'' 0x0080 mw;
          mw = mark b ''<td>15312</td>'' ''<td>15317</td>'' 0x0040 mw;
          mw = mark b ''<td>15378</td>'' ''<td>15383</td>'' 0x0020 mw;
          mw = mark b ''<td>15628</td>'' ''<td>15633</td>'' 0x0010 mw;
          mw = mark b ''<td>15919</td>'' ''<td>15924</td>'' 0x0008 mw;
          mw = mark b ''<td>16031</td>'' ''<td>16036</td>'' 0x0004 mw;
          mw = mark b ''<td>16101</td>'' ''<td>16106/td>'' 0x0002 mw;
          mw = mark b ''<td>16167</td>'' ''<td>16172</td>'' 0x0001 mw
      in mw)"

text \<open>
  \<^verbatim>\<open>generate_magic_word(url)\<close>, with \<^verbatim>\<open>requests.get\<close> as the parameter \<open>get\<close>. The lines
  that the function prints are left out.
\<close>

definition generate_magic_word :: "(string \<Rightarrow> py_error + string response) \<Rightarrow> string
                                   \<Rightarrow> py_error + int" where
  "generate_magic_word get url =
     bind_err (get url) (\<lambda>ret.
       if status_code ret \<noteq> 200 then Inl FetchFailed
       else
         let b = body ret;
             idx = py_find b ''Sectors with LibCrypt protection''
         in if idx = - 1 then Inr 0
            else Inr (probe_markers (protection_section b idx)))"

text \<open>The sixteen pairs of marker strings of the source, in the order of the tests.\<close>

definition marker_pairs :: "(string \<times> string) list" where
  "marker_pairs =
     [(''<td>14105</td>'', ''<td>14110</td>''),
      (''<td>14231</td>'', ''<td>14236</td>''),
      (''<td>14485</td>'', ''<td>14490</td>''),
      (''<td>14579</td>'', ''<td>14584</td>''),
      (''<td>14649</td>'', ''<td>14654</td>''),
      (''<td>14899</td>'', ''<td>14904</td>''),
      (''<td>15056</td>'', ''<td>15061</td>''),
      (''<td>15130</td>'', ''<td>15135</td>''),
      (''<td>15242</td>'', ''<td>15247</td>''),
      (''<td>15312</td>'', ''<td>15317</td>''),
      (''<td>15378</td>'', ''<td>15383</td>''),
      (''<td>15628</td>'', ''<td>15633</td>''),
      (''<td>15919</td>'', ''<td>15924</td>''),
      (''<td>16031</td>'', ''<td>16036</td>''),
      (''<td>16101</td>'', ''<td>16106/td>''),
      (''<td>16167</td>'', ''<td>16172</td>'')]"

text \<open>Pair \<open>k\<close> is present in a text when one of its two strings occurs in it.\<close>

definition pair_present :: "string \<Rightarrow> nat \<Rightarrow> bool" where
  "pair_present sec k \<longleftrightarrow>
     sublist (fst (marker_pairs ! k)) sec \<or> sublist (snd (marker_pairs ! k)) sec"

text \<open>The section of a report, when the header is found.\<close>

definition section_of :: "string \<Rightarrow> string" where
  "section_of b = protection_section b (py_find b ''Sectors with LibCrypt protection'')"

text \<open>A report whose section holds the marker of sector 14105 and no other.\<close>

definition report_14105 :: "string response" where
  "report_14105 =
     \<lparr>status_code = 200,
      body = ''<h3>Sectors with LibCrypt protection</h3><td>14105</td></table>''\<rparr>"

definition report_plain :: "string response" where
  "report_plain = \<lparr>status_code = 200, body = ''<td>14105</td>''\<rparr>"

text \<open>The bit that the test of each pair sets, in the order of the tests.\<close>

definition marker_values :: "int list" where
  "marker_values =
     [0x8000, 0x4000, 0x2000, 0x1000, 0x0800, 0x0400, 0x0200, 0x0100,
      0x0080, 0x0040, 0x0020, 0x0010, 0x0008, 0x0004, 0x0002, 0x0001]"

text \<open>
  Two reports for pair 14, the sectors 16101 and 16106: the section of the first holds
  only the marker of sector 16106, that of the second only the marker of sector 16101.
\<close>

definition report_16106 :: "string response" where
  "report_16106 =
     \<lparr>status_code = 200,
      body = ''<h3>'' @ ''Sectors with LibCrypt protection</h3><td>16106</td></'' @ ''table>''\<rparr>"

definition report_16101 :: "string response" where
  "report_16101 =
     \<lparr>status_code = 200,
      body = ''<h3>'' @ ''Sectors with LibCrypt protection</h3><td>16101</td></'' @ ''table>''\<rparr>"

section \<open>Copy-protection patching: the table-driven mode of \<^verbatim>\<open>apply_ppf\<close>\<close>

text \<open>
  An entry of the table \<^verbatim>\<open>libcrypt\<close> of \<^verbatim>\<open>gamedb\<close>: a dictionary in which the keys
  \<^verbatim>\<open>'credit'\<close>, \<^verbatim>\<open>'ppf'\<close> and \<^verbatim>\<open>'ppfzip'\<close> may be missing. \<^verbatim>\<open>'ppf'\<close> names a patch file,
  \<^verbatim>\<open>'ppfzip'\<close> is the address of an archive and the name of its member.
\<close>

record libcrypt_entry =
  credit :: "string option"
  ppf :: "string option"
  ppfzip :: "(string \<times> string) option"

text \<open>What \<^verbatim>\<open>apply_ppf\<close> reads and changes: the files by path, the global list
  \<^verbatim>\<open>temp_files\<close> and the lines printed.\<close>

record world =
  files :: "string \<rightharpoonup> byte list"
  temp_files :: "string list"
  stdout :: "string list"

text \<open>
  What the function uses and this file does not hold: the table, \<^verbatim>\<open>requests.get\<close>, the
  extraction of a member from an archive given by its bytes (\<^verbatim>\<open>zipfile\<close>), \<^verbatim>\<open>ApplyPPF\<close> of the
  module \<^verbatim>\<open>ppf\<close>, which patches the image file in place with the patch file it is given, and
  the global \<^verbatim>\<open>verbose\<close>. Each call may raise.
\<close>

record env =
  libcrypt :: "string \<rightharpoonup> libcrypt_entry"
  requests_get :: "string \<Rightarrow> py_error + byte list response"
  zip_member :: "byte list \<Rightarrow> string \<Rightarrow> py_error + byte list"
  ApplyPPF :: "(string \<rightharpoonup> byte list) \<Rightarrow> string \<Rightarrow> string
               \<Rightarrow> py_error + (string \<rightharpoonup> byte list)"
  verbose :: bool

definition print :: "string \<Rightarrow> world \<Rightarrow> world" where
  "print line w = w\<lparr>stdout := stdout w @ [line]\<rparr>"

definition banner :: string where
  "banner = ''##################################''"

definition no_ppf_warning :: "string \<Rightarrow> string" where
  "no_ppf_warning disc_id =
     ''WARNING! No PPF found for '' @ disc_id
     @ '' the game might not work unless you have already patched the image file''"

definition fetch_warning :: string where
  "fetch_warning = ''WARNING! PPF to remove libcrypt was not found for %s. Game might not work.''"

text \<open>
  The part of \<^verbatim>\<open>apply_ppf\<close> after the automatic branch. \<^verbatim>\<open>libcrypt[disc_id]\<close> raises
  \<^verbatim>\<open>KeyError\<close> for a disc that the table does not hold. When a call raises, the model
  gives the error alone.
\<close>

definition apply_ppf_table :: "env \<Rightarrow> world \<Rightarrow> string \<Rightarrow> string \<Rightarrow> py_error + world" where
  "apply_ppf_table E w img disc_id =
     (case libcrypt E disc_id of
        None \<Rightarrow> Inl KeyError
      | Some entry \<Rightarrow>
          let w = (case credit entry of Some c \<Rightarrow> print c w | None \<Rightarrow> w)
          in (case ppf entry of
                Some p \<Rightarrow>
                  let w = print (''Patching  '' @ disc_id @ '' to remove libcrypt'') w
                  in bind_err (ApplyPPF E (files w) img p) (\<lambda>fs. Inr (w\<lparr>files := fs\<rparr>))
              | None \<Rightarrow>
                  (case ppfzip entry of
                     None \<Rightarrow>
                       Inr (print banner (print (no_ppf_warning disc_id) (print banner w)))
                   | Some (url, member) \<Rightarrow>
                       let w = (if verbose E then print (''Fetching PPF for '' @ disc_id) w else w)
                       in bind_err (requests_get E url) (\<lambda>ret.
                            if status_code ret \<noteq> 200
                            then Inr (print banner (print fetch_warning (print banner w)))
                            else
                              let w = (if verbose E
                                       then print (''Extracting PPF  '' @ member) w else w)
                              in bind_err (zip_member E (body ret) member) (\<lambda>patch.
                                   let w = w\<lparr>files := (files w)(member \<mapsto> patch),
                                              temp_files := temp_files w @ [member]\<rparr>;
                                       w = print (''Patching  '' @ disc_id @ '' to remove libcrypt'') w
                                   in bind_err (ApplyPPF E (files w) img member)
                                        (\<lambda>fs. Inr (w\<lparr>files := fs\<rparr>)))))))"

text \<open>\<^verbatim>\<open>apply_ppf(img, disc_id, magic_word, auto_libcrypt)\<close>.\<close>

definition apply_ppf :: "env \<Rightarrow> world \<Rightarrow> string \<Rightarrow> string \<Rightarrow> int \<Rightarrow> bool
                         \<Rightarrow> py_error + world" where
  "apply_ppf E w img disc_id magic_word auto_libcrypt =
     (if auto_libcrypt then
        (case files w img of
           None \<Rightarrow> Inl FileNotFoundError
         | Some data \<Rightarrow>
             bind_err (apply_ppf_auto img data magic_word (stdout w)) (\<lambda>(data', out').
               Inr (w\<lparr>files := (files w)(img \<mapsto> data'), stdout := out'\<rparr>)))
      else apply_ppf_table E w img disc_id)"

text \<open>A table with one disc that has an archive registered, a server that answers 404, and
  a world with one image file.\<close>

definition example_env :: env where
  "example_env =
     \<lparr>libcrypt = [''SLES-01226'' \<mapsto> \<lparr>credit = None, ppf = None,
                     ppfzip = Some (''https://example.org/p.zip'', ''p.ppf'')\<rparr>,
                   ''SLES-02529'' \<mapsto> \<lparr>credit = None, ppf = None, ppfzip = None\<rparr>],
      requests_get = (\<lambda>url. Inr \<lparr>status_code = 404, body = []\<rparr>),
      zip_member = (\<lambda>bytes member. Inl KeyError),
      ApplyPPF = (\<lambda>fs img patch. Inl FileNotFoundError),
      verbose = False\<rparr>"

definition example_world :: world where
  "example_world = \<lparr>files = [''LCP00.bin'' \<mapsto> [1, 2, 3]], temp_files = [], stdout = []\<rparr>"

section \<open>Properties of the BCD codec and of TOC synthesis\<close>

text \<open>\<open>bcd\<close> stays within a byte on every integer, so storing it never raises.\<close>

lemma bcd_range: "0 \<le> bcd i \<and> bcd i \<le> 153"
proof -
  have "0 \<le> i mod 10" "i mod 10 < 10" by simp_all
  moreover have "0 \<le> trunc_div10 i mod 10" "trunc_div10 i mod 10 < 10" by simp_all
  ultimately show ?thesis unfolding bcd_def by linarith
qed

lemma uint_bcd_byte: "uint (bcd_byte x) = bcd x"
proof -
  have "0 \<le> bcd x" "bcd x < 2 ^ 8" using bcd_range [of x] by simp_all
  then show ?thesis
    unfolding bcd_byte_def by (simp add: uint_word_of_int take_bit_int_eq_self)
qed

lemma scan_header_ok:
  "\<forall>l\<in>set lines. startswith ''ntracks'' l \<longrightarrow> py_int (drop 7 l) \<noteq> None \<Longrightarrow>
   scan_header lines nt te =
     Inr (last_or (map (\<lambda>l. the (py_int (drop 7 l))) (filter (startswith ''ntracks'') lines)) nt,
          last_or (map (drop 10) (filter (startswith ''trk end'') lines)) te)"
proof (induction lines arbitrary: nt te)
  case Nil
  then show ?case by simp
next
  case (Cons l ls)
  then show ?case
    by (cases "py_int (drop 7 l)") (auto simp: bind_err_def int_of_str_def)
qed

lemma track_loop_ok:
  "buf_shape buf \<Longrightarrow>
   map (\<lambda>l. parse_msf (drop 10 l)) (track_lines lines) = map Some msfs \<Longrightarrow>
   track_loop lines buf k toc = Inr (toc @ track_records k msfs)"
proof (induction lines arbitrary: buf k toc msfs)
  case Nil
  then show ?case by (simp add: track_lines_def)
next
  case (Cons l ls)
  show ?case
  proof (cases "is_track_line l")
    case False
    with Cons.prems have "map (\<lambda>l. parse_msf (drop 10 l)) (track_lines ls) = map Some msfs"
      by (simp add: track_lines_def)
    from Cons.IH [OF Cons.prems(1) this] False show ?thesis
      by (simp add: is_track_line_def)
  next
    case True
    with Cons.prems(2) obtain x rest where
      msfs: "msfs = x # rest" and
      px: "parse_msf (drop 10 l) = Some x" and
      prest: "map (\<lambda>l. parse_msf (drop 10 l)) (track_lines ls) = map Some rest"
      by (cases msfs) (auto simp: track_lines_def)
    obtain m s f where x: "x = (m, s, f)" by (cases x)
    from px x have ints:
      "int_of_str (py_slice (drop 10 l) 0 2) = Inr m"
      "int_of_str (py_slice (drop 10 l) 3 5) = Inr s"
      "int_of_str (py_slice (drop 10 l) 6 8) = Inr f"
      by (auto simp: parse_msf_def int_of_str_def split: option.splits)
    from Cons.prems(1) obtain a b c d e where buf: "buf = [a, 0, b, 0, 0, 0, 0, c, d, e]"
      unfolding buf_shape_def by blast
    define buf9 where "buf9 = record_of k x"
    have shape9: "buf_shape buf9"
      unfolding buf9_def record_of_def x buf_shape_def by simp
    have step: "track_loop (l # ls) buf k toc = track_loop ls buf9 (k + 1) (toc @ buf9)"
    proof -
      from True have nt: "\<not> (\<not> startswith ''data'' l \<and> \<not> startswith ''track'' l)"
        by (simp add: is_track_line_def)
      show ?thesis
        using ints
        by (simp only: track_loop.simps nt if_False)
           (simp add: bind_err_def buf buf9_def record_of_def x Let_def)
    qed
    show ?thesis
      unfolding step Cons.IH [OF shape9 prest] msfs
      by (simp add: buf9_def)
  qed
qed

lemma length_track_records: "length (track_records k xs) = 10 * length xs"
  by (induction xs arbitrary: k) (auto simp: record_of_def split: prod.splits)

lemma slice_track_records:
  "i < length xs \<Longrightarrow>
   py_slice (track_records k xs) (10 * i) (10 * i + 10) = record_of (k + int i) (xs ! i)"
proof (induction xs arbitrary: k i)
  case Nil
  then show ?case by simp
next
  case (Cons x xs)
  have len: "length (record_of k x) = 10"
    by (simp add: record_of_def split: prod.splits)
  show ?case
  proof (cases i)
    case 0
    then show ?thesis using len by (simp add: py_slice_def)
  next
    case (Suc j)
    with Cons.prems have j: "j < length xs" by simp
    have "py_slice (track_records k (x # xs)) (10 * i) (10 * i + 10)
          = py_slice (track_records (k + 1) xs) (10 * j) (10 * j + 10)"
      using len Suc by (simp add: py_slice_def)
    also have "\<dots> = record_of (k + 1 + int j) (xs ! j)"
      by (rule Cons.IH [OF j])
    finally show ?thesis using Suc by (simp add: algebra_simps)
  qed
qed

lemma bcd_codec_closed:
  "\<forall>i\<in>{0..99::int}.
     bcd i = (i mod 10) OR (push_bit 4 (i div 10 mod 10)) \<and> decode_bcd (bcd i) = i"
  by code_simp

lemma decode_bcd_bcd: "0 \<le> i \<Longrightarrow> i \<le> 99 \<Longrightarrow> decode_bcd (bcd i) = i"
proof -
  assume "0 \<le> i" and "i \<le> 99"
  then have "i \<in> {0..99}" by simp
  with bcd_codec_closed show ?thesis by blast
qed

text \<open>
  Claim C2. For every integer \<open>i\<close> in \<open>[0, 99]\<close>, \<open>bcd i\<close> is one byte, equal to
  \<open>(i mod 10) | ((i div 10 mod 10) << 4)\<close>, and decoding it with
  \<open>decode_bcd b = (b & 0xF) + 10 * (b >> 4)\<close> gives \<open>i\<close> back.
\<close>

theorem bcd_roundtrip:
  assumes "0 \<le> i" and "i \<le> 99"
  shows "0 \<le> bcd i \<and> bcd i < 256 \<and>
         bcd i = (i mod 10) OR (push_bit 4 (i div 10 mod 10)) \<and>
         decode_bcd (bcd i) = i"
proof -
  from assms have "i \<in> {0..99}" by simp
  with bcd_codec_closed have
    "bcd i = (i mod 10) OR (push_bit 4 (i div 10 mod 10)) \<and> decode_bcd (bcd i) = i"
    by blast
  moreover have "0 \<le> bcd i \<and> bcd i < 256" using bcd_range [of i] by simp
  ultimately show ?thesis by blast
qed

text \<open>The codec at \<open>i = 42\<close>: the byte is \<open>0x42\<close> and decodes to 42.\<close>

theorem bcd_roundtrip_witness:
  "(0::int) \<le> 42 \<and> (42::int) \<le> 99 \<and> bcd 42 = 0x42 \<and> decode_bcd (bcd 42) = 42"
  using bcd_roundtrip [of 42] by (simp add: bcd_def trunc_div10_def)

lemma wf_cu2_msfs:
  assumes "wf_cu2 lines N e"
  obtains msfs where
    "map (\<lambda>l. parse_msf (drop 10 l)) (track_lines lines) = map Some msfs"
    "int (length msfs) = N"
proof -
  let ?ms = "map (\<lambda>l. the (parse_msf (drop 10 l))) (track_lines lines)"
  from assms have "\<forall>l\<in>set (track_lines lines). parse_msf (drop 10 l) \<noteq> None"
    by (simp add: wf_cu2_def list_all_iff)
  then have "map (\<lambda>l. parse_msf (drop 10 l)) (track_lines lines) = map Some ?ms"
    by auto
  moreover from assms have "int (length ?ms) = N" by (simp add: wf_cu2_def)
  ultimately show thesis by (rule that)
qed

lemma get_toc_from_cu2_wf:
  assumes wf: "wf_cu2 lines N (m, s, f)"
    and msfs: "map (\<lambda>l. parse_msf (drop 10 l)) (track_lines lines) = map Some msfs"
  shows "get_toc_from_cu2 lines =
           Inr (toc_header[17 := bcd_byte N, 27 := bcd_byte m, 28 := bcd_byte s, 29 := bcd_byte f]
                @ track_records 1 msfs)"
proof -
  from wf have nt: "map (\<lambda>l. py_int (drop 7 l)) (filter (startswith ''ntracks'') lines) = [Some N]"
    and te: "map (\<lambda>l. parse_msf (drop 10 l)) (filter (startswith ''trk end'') lines) = [Some (m, s, f)]"
    by (simp_all add: wf_cu2_def)
  from nt obtain l0 where nl: "filter (startswith ''ntracks'') lines = [l0]"
    and p0: "py_int (drop 7 l0) = Some N"
    by (cases "filter (startswith ''ntracks'') lines") auto
  have ok: "\<forall>l\<in>set lines. startswith ''ntracks'' l \<longrightarrow> py_int (drop 7 l) \<noteq> None"
  proof (intro ballI impI)
    fix l assume "l \<in> set lines" and "startswith ''ntracks'' l"
    then have "l \<in> set (filter (startswith ''ntracks'') lines)" by simp
    then have "l = l0" unfolding nl by simp
    with p0 show "py_int (drop 7 l) \<noteq> None" by simp
  qed
  have ntv: "map (\<lambda>l. the (py_int (drop 7 l))) (filter (startswith ''ntracks'') lines) = [N]"
    unfolding nl using p0 by simp
  from te obtain l where tl: "filter (startswith ''trk end'') lines = [l]"
    and pl: "parse_msf (drop 10 l) = Some (m, s, f)"
    by (cases "filter (startswith ''trk end'') lines") auto
  from pl have ints:
    "int_of_str (py_slice (drop 10 l) 0 2) = Inr m"
    "int_of_str (py_slice (drop 10 l) 3 5) = Inr s"
    "int_of_str (py_slice (drop 10 l) 6 8) = Inr f"
    by (auto simp: parse_msf_def int_of_str_def split: option.splits)
  have scan: "scan_header lines None None = Inr (Some N, Some (drop 10 l))"
    unfolding scan_header_ok [OF ok] ntv tl by simp
  have shape: "buf_shape (replicate 10 0)"
    unfolding buf_shape_def by (simp add: eval_nat_numeral)
  show ?thesis
    unfolding get_toc_from_cu2_def scan
    using ints by (simp add: bind_err_def track_loop_ok [OF shape msfs])
qed

lemma wf_cu2_one_track: "wf_cu2 cu2_one_track 1 (1, 2, 3)"
  by (simp add: wf_cu2_def cu2_one_track_def startswith_def track_lines_def is_track_line_def
      parse_msf_def py_slice_def py_int_def py_strip_def is_space_def unsigned_value_def
      is_digit_def digit_val_def)

text \<open>
  Claim C1. For a well-formed CU2 descriptor that declares \<open>N\<close> tracks, has end of disc
  \<open>m:s:f\<close> and holds \<open>N\<close> per-track lines, \<^verbatim>\<open>get_toc_from_cu2\<close> returns a buffer of
  exactly \<open>30 + 10 * N\<close> bytes whose byte 17 is \<open>bcd N\<close> and whose bytes 27, 28, 29 are
  the BCD codes of \<open>m\<close>, \<open>s\<close>, \<open>f\<close>; when these are two-digit values the three bytes
  decode back to \<open>(m, s, f)\<close>.
\<close>

theorem get_toc_from_cu2_length_header:
  assumes "wf_cu2 lines N (m, s, f)"
  shows "\<exists>toc. get_toc_from_cu2 lines = Inr toc \<and>
           length toc = 30 + 10 * nat N \<and>
           uint (toc ! 17) = bcd N \<and>
           uint (toc ! 27) = bcd m \<and> uint (toc ! 28) = bcd s \<and> uint (toc ! 29) = bcd f \<and>
           (m \<in> {0..99} \<and> s \<in> {0..99} \<and> f \<in> {0..99} \<longrightarrow>
              decode_bcd (uint (toc ! 27)) = m \<and>
              decode_bcd (uint (toc ! 28)) = s \<and>
              decode_bcd (uint (toc ! 29)) = f)"
proof -
  from assms obtain msfs where
    msfs: "map (\<lambda>l. parse_msf (drop 10 l)) (track_lines lines) = map Some msfs"
    and len: "int (length msfs) = N"
    by (rule wf_cu2_msfs)
  let ?hdr = "toc_header[17 := bcd_byte N, 27 := bcd_byte m, 28 := bcd_byte s, 29 := bcd_byte f]"
  let ?toc = "?hdr @ track_records 1 msfs"
  have hl: "length ?hdr = 30" by (simp add: toc_header_def)
  have toc: "get_toc_from_cu2 lines = Inr ?toc"
    by (rule get_toc_from_cu2_wf [OF assms msfs])
  have l: "length ?toc = 30 + 10 * nat N"
    using len hl by (auto simp: length_track_records)
  have n17: "?toc ! 17 = bcd_byte N" and n27: "?toc ! 27 = bcd_byte m"
    and n28: "?toc ! 28 = bcd_byte s" and n29: "?toc ! 29 = bcd_byte f"
    by (simp_all add: nth_append toc_header_def)
  have dec: "m \<in> {0..99} \<and> s \<in> {0..99} \<and> f \<in> {0..99} \<longrightarrow>
              decode_bcd (uint (?toc ! 27)) = m \<and>
              decode_bcd (uint (?toc ! 28)) = s \<and>
              decode_bcd (uint (?toc ! 29)) = f"
    unfolding n27 n28 n29 uint_bcd_byte by (simp add: decode_bcd_bcd)
  show ?thesis
    using toc l dec unfolding n17 n27 n28 n29
    by (intro exI [of _ ?toc]) (simp only: n17 n27 n28 n29 uint_bcd_byte simp_thms)
qed

text \<open>
  The descriptor with one track line at \<open>00:00:00\<close> and \<^verbatim>\<open>trk end   01:02:03\<close>: it is well
  formed, its TOC has 40 bytes and the lead-out fields decode to \<open>(1, 2, 3)\<close>.
\<close>

theorem get_toc_from_cu2_length_header_witness:
  "wf_cu2 cu2_one_track 1 (1, 2, 3) \<and>
   (\<exists>toc. get_toc_from_cu2 cu2_one_track = Inr toc \<and> length toc = 40 \<and>
      uint (toc ! 17) = bcd 1 \<and>
      decode_bcd (uint (toc ! 27)) = 1 \<and>
      decode_bcd (uint (toc ! 28)) = 2 \<and>
      decode_bcd (uint (toc ! 29)) = 3)"
  using get_toc_from_cu2_length_header [OF wf_cu2_one_track] wf_cu2_one_track by auto

text \<open>
  The count is read from column 7 of the \<^verbatim>\<open>ntracks\<close> line and each MSF from column 10 of
  its line. A descriptor that writes \<^verbatim>\<open>ntracks=1\<close> is not in this layout: \<^verbatim>\<open>int('=1')\<close>
  raises.
\<close>

lemma get_toc_from_cu2_equals_signs: "get_toc_from_cu2 cu2_equals_signs = Inl ValueError"
  by (simp add: get_toc_from_cu2_def cu2_equals_signs_def startswith_def
      bind_err_def int_of_str_def py_int_def py_strip_def is_space_def unsigned_value_def
      is_digit_def digit_val_def)

lemma replicate_10: "replicate 10 x = [x, x, x, x, x, x, x, x, x, x]"
  by (simp add: eval_nat_numeral)

lemma get_toc_cu2_example: "get_toc_from_cu2 cu2_example = Inr cu2_example_toc"
  by (simp add: replicate_10 get_toc_from_cu2_def cu2_example_def cu2_example_toc_def startswith_def
      bind_err_def int_of_str_def py_int_def py_strip_def is_space_def unsigned_value_def
      is_digit_def digit_val_def py_slice_def bcd_byte_def bcd_def trunc_div10_def toc_header_def)

text \<open>
  Claim C3 words the 10-byte record as: control flag, track number in BCD, three zero
  bytes, start MSF in BCD, one trailing reserved byte. On the one-track descriptor the
  record is \<open>41 00 01 00 00 00 00 00 02 00\<close>: the byte after the flag is zero, not the
  track number, and the MSF closes the record.
\<close>

theorem track_record_layout_counterexample:
  "get_toc_from_cu2 cu2_example = Inr cu2_example_toc \<and>
   parse_msf (drop 10 (track_lines cu2_example ! 0)) = Some (0, 2, 0) \<and>
   py_slice cu2_example_toc 30 38 \<noteq> claimed_record_fields 1 (0, 2, 0) \<and>
   cu2_example_toc ! 31 \<noteq> bcd_byte 1"
proof -
  have "parse_msf (drop 10 (track_lines cu2_example ! 0)) = Some (0, 2, 0)"
    by (simp add: cu2_example_def startswith_def track_lines_def is_track_line_def
      parse_msf_def py_slice_def py_int_def py_strip_def is_space_def unsigned_value_def
      is_digit_def digit_val_def)
  moreover have "py_slice cu2_example_toc 30 38 \<noteq> claimed_record_fields 1 (0, 2, 0)"
    by (simp add: cu2_example_toc_def py_slice_def claimed_record_fields_def bcd_byte_def
        bcd_def trunc_div10_def)
  moreover have "cu2_example_toc ! 31 \<noteq> bcd_byte 1"
    by (simp add: cu2_example_toc_def bcd_byte_def bcd_def trunc_div10_def)
  ultimately show ?thesis using get_toc_cu2_example by simp
qed

lemma uint_record_of:
  "map uint (record_of k (m, s, f)) =
     [if k = 1 then 0x41 else 0x01, 0, bcd k, 0, 0, 0, 0, bcd m, bcd s, bcd f]"
  by (simp add: record_of_def uint_bcd_byte)

lemma last_or_last: "xs \<noteq> [] \<Longrightarrow> last_or xs d = Some (last xs)"
  by (induction xs arbitrary: d) auto

lemma get_toc_from_cu2_parses:
  assumes "cu2_parses lines"
  obtains n m s f msfs where
    "py_int (drop 7 (last (filter (startswith ''ntracks'') lines))) = Some n"
    "parse_msf (drop 10 (last (filter (startswith ''trk end'') lines))) = Some (m, s, f)"
    "map (\<lambda>l. parse_msf (drop 10 l)) (track_lines lines) = map Some msfs"
    "get_toc_from_cu2 lines =
       Inr (toc_header[17 := bcd_byte n, 27 := bcd_byte m, 28 := bcd_byte s, 29 := bcd_byte f]
            @ track_records 1 msfs)"
proof -
  let ?nts = "filter (startswith ''ntracks'') lines"
  let ?tes = "filter (startswith ''trk end'') lines"
  from assms have ne: "?nts \<noteq> []" and te: "?tes \<noteq> []"
    and all: "\<forall>l\<in>set ?nts. py_int (drop 7 l) \<noteq> None"
    and pl: "py_int (drop 7 (last ?nts)) \<noteq> None"
    and pe: "parse_msf (drop 10 (last ?tes)) \<noteq> None"
    and tr: "\<forall>l\<in>set (track_lines lines). parse_msf (drop 10 l) \<noteq> None"
    by (auto simp: cu2_parses_def Let_def list_all_iff split: option.splits)
  from pl obtain n where n: "py_int (drop 7 (last ?nts)) = Some n" by blast
  from pe obtain m s f where e: "parse_msf (drop 10 (last ?tes)) = Some (m, s, f)"
    by (cases "parse_msf (drop 10 (last ?tes))") auto
  let ?ms = "map (\<lambda>l. the (parse_msf (drop 10 l))) (track_lines lines)"
  from tr have msfs: "map (\<lambda>l. parse_msf (drop 10 l)) (track_lines lines) = map Some ?ms"
    by auto
  have ok: "\<forall>l\<in>set lines. startswith ''ntracks'' l \<longrightarrow> py_int (drop 7 l) \<noteq> None"
    using all by simp
  have ln: "last_or (map (\<lambda>l. the (py_int (drop 7 l))) ?nts) None = Some n"
    using ne n by (simp add: last_or_last last_map)
  have le: "last_or (map (drop 10) ?tes) None = Some (drop 10 (last ?tes))"
    using te by (simp add: last_or_last last_map)
  have scan: "scan_header lines None None = Inr (Some n, Some (drop 10 (last ?tes)))"
    unfolding scan_header_ok [OF ok] ln le by simp
  from e have ints:
    "int_of_str (py_slice (drop 10 (last ?tes)) 0 2) = Inr m"
    "int_of_str (py_slice (drop 10 (last ?tes)) 3 5) = Inr s"
    "int_of_str (py_slice (drop 10 (last ?tes)) 6 8) = Inr f"
    by (auto simp: parse_msf_def int_of_str_def split: option.splits)
  have shape: "buf_shape (replicate 10 0)"
    unfolding buf_shape_def by (simp add: eval_nat_numeral)
  have "get_toc_from_cu2 lines =
       Inr (toc_header[17 := bcd_byte n, 27 := bcd_byte m, 28 := bcd_byte s, 29 := bcd_byte f]
            @ track_records 1 ?ms)"
    unfolding get_toc_from_cu2_def scan
    using ints by (simp add: bind_err_def track_loop_ok [OF shape msfs])
  with n e msfs show thesis by (rule that)
qed

text \<open>
  Claim C3, as the code lays the record out. For every descriptor that the function reads
  to the end, and the \<open>k\<close>-th of its track lines (counting from 0), whose start MSF is
  \<open>m:s:f\<close>, bytes \<open>30 + 10 * k\<close> to \<open>30 + 10 * k + 9\<close> of the TOC are: the flag \<open>0x41\<close>
  for the first track and \<open>0x01\<close> for every later one, a zero byte, the track number
  \<open>k + 1\<close> in BCD, four zero bytes, and the start MSF in BCD.
\<close>

theorem track_record_layout:
  assumes p: "cu2_parses lines"
    and k: "k < length (track_lines lines)"
    and t: "parse_msf (drop 10 (track_lines lines ! k)) = Some (m, s, f)"
  shows "\<exists>toc. get_toc_from_cu2 lines = Inr toc \<and>
           map uint (py_slice toc (30 + 10 * k) (30 + 10 * k + 10)) =
             [if k = 0 then 0x41 else 0x01, 0, bcd (int k + 1), 0, 0, 0, 0,
              bcd m, bcd s, bcd f]"
proof -
  from p obtain n em es ef msfs where
    msfs: "map (\<lambda>l. parse_msf (drop 10 l)) (track_lines lines) = map Some msfs"
    and toc: "get_toc_from_cu2 lines =
       Inr (toc_header[17 := bcd_byte n, 27 := bcd_byte em, 28 := bcd_byte es, 29 := bcd_byte ef]
            @ track_records 1 msfs)"
    by (rule get_toc_from_cu2_parses)
  let ?hdr = "toc_header[17 := bcd_byte n, 27 := bcd_byte em, 28 := bcd_byte es, 29 := bcd_byte ef]"
  let ?toc = "?hdr @ track_records 1 msfs"
  have hl: "length ?hdr = 30" by (simp add: toc_header_def)
  from msfs have lm: "length msfs = length (track_lines lines)"
    by (metis length_map)
  with k have k': "k < length msfs" by simp
  from msfs k have "Some (msfs ! k) = parse_msf (drop 10 (track_lines lines ! k))"
    by (metis k' length_map nth_map)
  with t have mk: "msfs ! k = (m, s, f)" by simp
  have "py_slice ?toc (30 + 10 * k) (30 + 10 * k + 10)
        = py_slice (track_records 1 msfs) (10 * k) (10 * k + 10)"
    using hl by (simp add: py_slice_def)
  also have "\<dots> = record_of (1 + int k) (m, s, f)"
    using slice_track_records [OF k', of 1] mk by simp
  finally have rec: "map uint (py_slice ?toc (30 + 10 * k) (30 + 10 * k + 10)) =
             [if k = 0 then 0x41 else 0x01, 0, bcd (int k + 1), 0, 0, 0, 0,
              bcd m, bcd s, bcd f]"
    by (simp add: uint_record_of add.commute)
  show ?thesis
    by (rule exI [of _ ?toc]) (rule conjI [OF toc rec])
qed

lemma cu2_two_tracks_parses: "cu2_parses cu2_two_tracks"
  by (simp add: cu2_parses_def cu2_two_tracks_def startswith_def track_lines_def is_track_line_def
      parse_msf_def py_slice_def py_int_def py_strip_def is_space_def unsigned_value_def
      is_digit_def digit_val_def Let_def)

lemma cu2_two_tracks_lines:
  "length (track_lines cu2_two_tracks) = 2"
  "parse_msf (drop 10 (track_lines cu2_two_tracks ! 0)) = Some (0, 2, 0)"
  "parse_msf (drop 10 (track_lines cu2_two_tracks ! 1)) = Some (5, 10, 20)"
  by (simp_all add: cu2_two_tracks_def startswith_def track_lines_def is_track_line_def
      parse_msf_def py_slice_def py_int_def py_strip_def is_space_def unsigned_value_def
      is_digit_def digit_val_def)

text \<open>The two records of a descriptor with a data track at \<open>00:02:00\<close> and an audio track
  at \<open>05:10:20\<close>: the first with flag \<open>0x41\<close>, the second with flag \<open>0x01\<close>.\<close>

theorem track_record_layout_witness:
  "cu2_parses cu2_two_tracks \<and> length (track_lines cu2_two_tracks) = 2 \<and>
   parse_msf (drop 10 (track_lines cu2_two_tracks ! 0)) = Some (0, 2, 0) \<and>
   parse_msf (drop 10 (track_lines cu2_two_tracks ! 1)) = Some (5, 10, 20) \<and>
   (\<exists>toc. get_toc_from_cu2 cu2_two_tracks = Inr toc \<and>
      map uint (py_slice toc 30 40) = [0x41, 0, 0x01, 0, 0, 0, 0, 0x00, 0x02, 0x00]) \<and>
   (\<exists>toc. get_toc_from_cu2 cu2_two_tracks = Inr toc \<and>
      map uint (py_slice toc 40 50) = [0x01, 0, 0x02, 0, 0, 0, 0, 0x05, 0x10, 0x20])"
proof -
  have k0: "0 < length (track_lines cu2_two_tracks)" and k1: "1 < length (track_lines cu2_two_tracks)"
    by (simp_all add: cu2_two_tracks_lines(1))
  have b: "bcd 0 = 0" "bcd 1 = 1" "bcd 2 = 2" "bcd 5 = 5" "bcd 10 = 0x10" "bcd 20 = 0x20"
    by (simp_all add: bcd_def trunc_div10_def)
  from track_record_layout [OF cu2_two_tracks_parses k0 cu2_two_tracks_lines(2)]
  have r0: "\<exists>toc. get_toc_from_cu2 cu2_two_tracks = Inr toc \<and>
      map uint (py_slice toc 30 40) = [0x41, 0, 0x01, 0, 0, 0, 0, 0x00, 0x02, 0x00]"
    by (simp add: b)
  from track_record_layout [OF cu2_two_tracks_parses k1 cu2_two_tracks_lines(3)]
  have r1: "\<exists>toc. get_toc_from_cu2 cu2_two_tracks = Inr toc \<and>
      map uint (py_slice toc 40 50) = [0x01, 0, 0x02, 0, 0, 0, 0, 0x05, 0x10, 0x20]"
    by (simp add: b)
  from cu2_two_tracks_parses cu2_two_tracks_lines r0 r1 show ?thesis by (intro conjI)
qed

section \<open>Properties of the memory-card functions\<close>

lemma write_at_mid:
  "length pre = p \<Longrightarrow> length mid = length d \<Longrightarrow>
   write_at p d (pre @ mid @ post) = pre @ d @ post"
  by (cases "d = []") (auto simp: write_at_def)

lemma write_at_empty_file: "d \<noteq> [] \<Longrightarrow> write_at p d [] = zeros p @ d"
  by (simp add: write_at_def zeros_def)

lemma file_ops:
  "content (f_write d f) = write_at (fpos f) d (content f)"
  "fpos (f_write d f) = fpos f + length d"
  "content (f_seek p f) = content f"
  "fpos (f_seek p f) = p"
  "content (f_open bs) = bs"
  "fpos (f_open bs) = 0"
  by (simp_all add: f_write_def f_seek_def f_open_def)

lemma content_fold_write:
  "content (fold (\<lambda>i f. f_write d (f_seek i f)) ps f)
   = fold (\<lambda>i c. write_at i d c) ps (content f)"
  by (induction ps arbitrary: f) (simp_all add: f_write_def f_seek_def)

lemma length_zeros [simp]: "length (zeros n) = n"
  by (simp add: zeros_def)

lemma zeros_add: "zeros (m + n) = zeros m @ zeros n"
  by (simp add: zeros_def replicate_add)

lemma concat_replicate_zeros: "concat (replicate n (zeros s)) = zeros (n * s)"
  by (induction n) (simp_all add: zeros_def replicate_add)

lemma cadence_shift:
  "map (\<lambda>k. a + k * s) [0..<Suc n] = a # map (\<lambda>k. (a + s) + k * s) [0..<n]"
proof -
  have "[0..<Suc n] = 0 # map Suc [0..<n]"
    by (simp add: upt_conv_Cons map_Suc_upt del: upt_Suc)
  then show ?thesis by (simp add: comp_def add.assoc del: upt_Suc)
qed

lemma fold_write_cadence:
  "length pre = a \<Longrightarrow> length d \<le> s \<Longrightarrow>
   fold (\<lambda>i c. write_at i d c) (map (\<lambda>k. a + k * s) [0..<n])
        (pre @ zeros (n * s) @ post)
   = pre @ concat (replicate n (d @ zeros (s - length d))) @ post"
proof (induction n arbitrary: a pre)
  case 0
  then show ?case by (simp add: zeros_def)
next
  case (Suc n)
  have split: "zeros (Suc n * s) = zeros (length d) @ zeros (s - length d) @ zeros (n * s)"
    using Suc.prems(2) by (simp add: zeros_add [symmetric])
  have w: "write_at a d (pre @ zeros (Suc n * s) @ post)
           = (pre @ d @ zeros (s - length d)) @ zeros (n * s) @ post"
    unfolding split using write_at_mid [of pre a "zeros (length d)" d] Suc.prems(1)
    by simp
  have l: "length (pre @ d @ zeros (s - length d)) = a + s"
    using Suc.prems by simp
  show ?case
    unfolding cadence_shift
    by (simp only: fold_Cons comp_apply w Suc.IH [OF l Suc.prems(2)]) simp
qed

lemma range_dir: "py_range 0xf0 0x780 0x80 = map (\<lambda>k. 0xf0 + k * 0x80) [0..<14]"
  by (simp add: py_range_def)

lemma range_broken: "py_range 0x880 0x1190 0x80 = map (\<lambda>k. 0x880 + k * 0x80) [0..<19]"
  by (simp add: py_range_def)

lemma create_blank_mc_layout_eq: "create_blank_mc = blank_mc_layout"
proof -
  let ?mc = "[0x4d, 0x43] :: byte list"
  let ?A = "?mc @ zeros (0x70 - 2)"
  let ?B = "?A @ mc_frame_first @ zeros (0xf0 - 0x90)"
  let ?C = "?B @ concat (replicate 14 (mc_frame_dir @ zeros (0x80 - 32)))"
  let ?D = "?C @ mc_frame_last @ zeros (0x880 - 0x810)"
  have lens [simp]: "length mc_frame_first = 32" "length mc_frame_dir = 32"
    "length mc_frame_last = 32" "length mc_frame_broken = 16"
    by (simp_all add: mc_frame_first_def mc_frame_dir_def mc_frame_last_def mc_frame_broken_def)
  have s0: "write_at 131071 (replicate 1 0) [] = zeros 131072"
  proof -
    have "write_at 131071 (replicate 1 0) [] = zeros 131071 @ zeros 1"
      unfolding write_at_def zeros_def by simp
    then show ?thesis by (simp add: zeros_add [symmetric])
  qed
  have s1: "write_at 0 ((replicate 2 0)[0 := 0x4d, 1 := 0x43]) (zeros 131072)
            = ?mc @ zeros 131070"
  proof -
    have "zeros 131072 = [] @ zeros 2 @ zeros 131070"
      by (simp add: zeros_add [symmetric])
    moreover have "(replicate 2 0)[0 := 0x4d, 1 := 0x43] = ?mc"
      by (simp add: eval_nat_numeral)
    ultimately show ?thesis
      using write_at_mid [of "[]" 0 "zeros 2" ?mc "zeros 131070"] by simp
  qed
  have s2: "write_at 0x70 mc_frame_first (?mc @ zeros 131070)
            = ?A @ mc_frame_first @ zeros (131072 - 0x90)"
  proof -
    have "?mc @ zeros 131070 = ?A @ zeros 32 @ zeros (131072 - 0x90)"
      by (simp add: zeros_add [symmetric])
    then show ?thesis
      using write_at_mid [of ?A "0x70" "zeros 32" mc_frame_first "zeros (131072 - 0x90)"]
      by simp
  qed
  have s3: "fold (\<lambda>i c. write_at i mc_frame_dir c) (py_range 0xf0 0x780 0x80)
              (?A @ mc_frame_first @ zeros (131072 - 0x90))
            = ?C @ zeros (131072 - 0x7f0)"
  proof -
    have "?A @ mc_frame_first @ zeros (131072 - 0x90)
          = ?B @ zeros (14 * 0x80) @ zeros (131072 - 0x7f0)"
      by (simp add: zeros_add [symmetric])
    then show ?thesis
      unfolding range_dir
      using fold_write_cadence [of ?B "0xf0" mc_frame_dir "0x80" 14 "zeros (131072 - 0x7f0)"]
      by simp
  qed
  have s4: "write_at 0x7f0 mc_frame_last (?C @ zeros (131072 - 0x7f0))
            = ?C @ mc_frame_last @ zeros (131072 - 0x810)"
  proof -
    have "?C @ zeros (131072 - 0x7f0) = ?C @ zeros 32 @ zeros (131072 - 0x810)"
      by (simp add: zeros_add [symmetric])
    moreover have "length ?C = 0x7f0"
      by (simp add: length_concat sum_list_replicate)
    ultimately show ?thesis
      using write_at_mid [of ?C "0x7f0" "zeros 32" mc_frame_last "zeros (131072 - 0x810)"]
      by simp
  qed
  have s5: "fold (\<lambda>i c. write_at i mc_frame_broken c) (py_range 0x880 0x1190 0x80)
              (?C @ mc_frame_last @ zeros (131072 - 0x810))
            = blank_mc_layout"
  proof -
    have "?C @ mc_frame_last @ zeros (131072 - 0x810)
          = ?D @ zeros (19 * 0x80) @ zeros (131072 - 0x1200)"
      by (simp add: zeros_add [symmetric])
    moreover have "length ?D = 0x880"
      by (simp add: length_concat sum_list_replicate)
    ultimately show ?thesis
      unfolding range_broken blank_mc_layout_def
      using fold_write_cadence [of ?D "0x880" mc_frame_broken "0x80" 19 "zeros (131072 - 0x1200)"]
      by simp
  qed
  show ?thesis
    unfolding create_blank_mc_def Let_def
    by (simp only: content_fold_write file_ops s0 s1 s2 s3 s4 s5)
qed

lemma length_blank_mc_layout: "length blank_mc_layout = 131072"
  by (simp add: blank_mc_layout_def length_concat sum_list_replicate
      mc_frame_first_def mc_frame_dir_def mc_frame_last_def mc_frame_broken_def)

lemma last_byte_blank_mc_layout: "blank_mc_layout ! 131071 = 0"
proof -
  let ?pre = "[0x4d, 0x43] @ zeros (0x70 - 2) @
     mc_frame_first @ zeros (0xf0 - 0x90) @
     concat (replicate 14 (mc_frame_dir @ zeros (0x80 - 32))) @
     mc_frame_last @ zeros (0x880 - 0x810) @
     concat (replicate 19 (mc_frame_broken @ zeros (0x80 - 16)))"
  have l: "length ?pre = 0x1200"
    by (simp add: length_concat sum_list_replicate
      mc_frame_first_def mc_frame_dir_def mc_frame_last_def mc_frame_broken_def)
  have "blank_mc_layout = ?pre @ zeros (131072 - 0x1200)"
    by (simp add: blank_mc_layout_def)
  then have "blank_mc_layout ! 131071 = (?pre @ zeros (131072 - 0x1200)) ! 131071"
    by simp
  also have "\<dots> = zeros (131072 - 0x1200) ! (131071 - 0x1200)"
    by (simp only: nth_append l) simp
  also have "\<dots> = 0" by (simp add: zeros_def)
  finally show ?thesis .
qed

text \<open>
  Claim C9 says that the last byte of the image is set to a non-zero sentinel. The
  byte written at offset 131071 is \<^verbatim>\<open>bytes(1)\<close>, a single zero byte, and nothing writes
  there again.
\<close>

theorem create_blank_mc_sentinel_counterexample:
  "length create_blank_mc = 131072 \<and> \<not> (create_blank_mc ! 131071 \<noteq> 0)"
  by (simp add: create_blank_mc_layout_eq length_blank_mc_layout last_byte_blank_mc_layout)

text \<open>
  Claim C9, with the last byte as the code writes it. \<^verbatim>\<open>create_blank_mc\<close> produces the
  same image at every call, of exactly 131072 bytes; its last byte is zero (written
  first, which fixes the size of the file); it starts with the magic \<open>MC\<close>; and byte
  for byte it is \<open>blank_mc_layout\<close>: one 32-byte pattern at \<open>0x70\<close>, the 32-byte
  directory pattern at \<open>0xf0, 0x170, ..., 0x770\<close>, a 32-byte boundary pattern at
  \<open>0x7f0\<close>, a 16-byte pattern at \<open>0x880, 0x900, ..., 0x1180\<close>, and zeros elsewhere.
\<close>

theorem create_blank_mc_image:
  "length create_blank_mc = 131072 \<and>
   create_blank_mc ! 131071 = 0 \<and>
   py_slice create_blank_mc 0 2 = [0x4d, 0x43] \<and>
   create_blank_mc = blank_mc_layout"
proof -
  have "py_slice blank_mc_layout 0 2 = [0x4d, 0x43]"
    by (simp add: blank_mc_layout_def py_slice_def)
  then show ?thesis
    by (simp add: create_blank_mc_layout_eq length_blank_mc_layout last_byte_blank_mc_layout)
qed

lemma read_all:
  "f_read n (f_seek p (f_open bs)) = (py_slice bs p (p + n), \<lparr>content = bs, fpos = p + length (py_slice bs p (p + n))\<rparr>)"
  "f_read n (f_open bs) = (py_slice bs 0 n, \<lparr>content = bs, fpos = length (py_slice bs 0 n)\<rparr>)"
  by (simp_all add: f_read_def f_seek_def f_open_def py_slice_def)

lemma read_next:
  "f_read n \<lparr>content = bs, fpos = p\<rparr> = (py_slice bs p (p + n), \<lparr>content = bs, fpos = p + length (py_slice bs p (p + n))\<rparr>)"
  by (simp add: f_read_def py_slice_def)

lemma check_memory_card_cases:
  "length bs = 131072 \<Longrightarrow> check_memory_card bs = Inr (Some [py_slice bs 0 131072])"
  "length bs = 131200 \<Longrightarrow> check_memory_card bs = Inr (Some [py_slice bs 128 131200])"
  "length bs = 131136 \<Longrightarrow> check_memory_card bs = Inr (Some [py_slice bs 64 131136])"
  "length bs = 262144 \<Longrightarrow>
     check_memory_card bs = Inr (Some [py_slice bs 0 131072, py_slice bs 131072 262144])"
  "length bs = 134976 \<Longrightarrow> check_memory_card bs = Inr (Some [py_slice bs 3904 134976])"
  "length bs \<notin> mc_sizes \<Longrightarrow> check_memory_card bs = Inr None"
  by (simp_all add: check_memory_card_def read_all read_next mc_sizes_def py_slice_def)

lemma mc_images_1: "mc_images bs skip (Suc 0) = [py_slice bs skip (skip + 131072)]"
  by (simp add: mc_images_def)

lemma mc_images_2:
  "mc_images bs skip 2 = [py_slice bs skip (skip + 131072), py_slice bs (skip + 131072) (skip + 262144)]"
proof -
  have "[0..<2] = [0, Suc 0]" by (simp add: numeral_2_eq_2)
  then show ?thesis by (simp add: mc_images_def)
qed

text \<open>
  Claim C6. \<^verbatim>\<open>check_memory_card\<close> returns images exactly for the file sizes 131072,
  131200, 131136, 262144 and 134976; for each of them it skips 0, 128, 64, 0 and 3904
  bytes and reads one image of 131072 bytes, two in a row for 262144. A 262144-byte
  file gives \<open>bs[0:131072]\<close> and \<open>bs[131072:262144]\<close>, a 131200-byte file gives
  \<open>bs[128:131200]\<close>.
\<close>

theorem check_memory_card_formats:
  "((\<exists>imgs. check_memory_card bs = Inr (Some imgs)) \<longleftrightarrow> length bs \<in> mc_sizes) \<and>
   (\<forall>(size, skip, n)\<in>set mc_formats.
      length bs = size \<longrightarrow>
        check_memory_card bs = Inr (Some (mc_images bs skip n)) \<and>
        n = (if size = 262144 then 2 else 1) \<and>
        (\<forall>img\<in>set (mc_images bs skip n). length img = 131072)) \<and>
   (length bs = 262144 \<longrightarrow>
      check_memory_card bs = Inr (Some [py_slice bs 0 131072, py_slice bs 131072 262144])) \<and>
   (length bs = 131200 \<longrightarrow>
      check_memory_card bs = Inr (Some [py_slice bs 128 131200]))"
proof -
  have a: "(\<exists>imgs. check_memory_card bs = Inr (Some imgs)) \<longleftrightarrow> length bs \<in> mc_sizes"
  proof (cases "length bs \<in> mc_sizes")
    case True
    then show ?thesis
      using check_memory_card_cases(1-5) [of bs] by (auto simp: mc_sizes_def)
  next
    case False
    then show ?thesis by (simp add: check_memory_card_cases(6))
  qed
  have b: "\<forall>(size, skip, n)\<in>set mc_formats.
      length bs = size \<longrightarrow>
        check_memory_card bs = Inr (Some (mc_images bs skip n)) \<and>
        n = (if size = 262144 then 2 else 1) \<and>
        (\<forall>img\<in>set (mc_images bs skip n). length img = 131072)"
    by (simp add: mc_formats_def check_memory_card_cases mc_images_1 mc_images_2)
       (simp add: py_slice_def)
  show ?thesis
    using a b check_memory_card_cases(2,4) [of bs] by blast
qed

text \<open>A two-card dump and a dump with a 128-byte header.\<close>

theorem check_memory_card_formats_witness:
  "check_memory_card (replicate 131072 1 @ replicate 131072 2)
     = Inr (Some [replicate 131072 1, replicate 131072 2]) \<and>
   check_memory_card (replicate 128 7 @ replicate 131072 1)
     = Inr (Some [replicate 131072 1])"
  using check_memory_card_formats [of "replicate 131072 1 @ replicate 131072 2"]
    check_memory_card_formats [of "replicate 128 7 @ replicate 131072 1"]
  by (simp add: py_slice_def)




lemma recognized_size_memory_card:
  "memory_card_gate (replicate 131072 0) [] = Inr (Next_input [replicate 131072 0])"
  by (simp add: memory_card_gate_def bind_err_def check_memory_card_cases(1) py_slice_def)

section \<open>Properties of the automatic patch\<close>

lemma occurs_at_drop: "occurs_at sub s (Suc i) \<longleftrightarrow> (s \<noteq> [] \<and> occurs_at sub (tl s) i)"
  by (cases s) (auto simp: occurs_at_def py_slice_def)

lemma occurs_at_0: "occurs_at sub s 0 \<longleftrightarrow> startswith sub s"
proof -
  have "length sub \<le> length s" if "take (length sub) s = sub"
  proof -
    have "length (take (length sub) s) \<le> length s" by simp
    with that show ?thesis by simp
  qed
  then show ?thesis
    by (auto simp: occurs_at_def py_slice_def startswith_def)
qed

lemma find_at_cases:
  "(find_at sub s k = - 1 \<and> (\<forall>j. \<not> occurs_at sub s j)) \<or>
   (\<exists>i. find_at sub s k = int (k + i) \<and> occurs_at sub s i \<and> (\<forall>j<i. \<not> occurs_at sub s j))"
proof (induction s arbitrary: k)
  case Nil
  show ?case
  proof (cases "sub = []")
    case True
    then have "find_at sub [] k = int (k + 0) \<and> occurs_at sub [] 0"
      by (simp add: occurs_at_def py_slice_def)
    then show ?thesis by blast
  next
    case False
    then show ?thesis by (simp add: occurs_at_def)
  qed
next
  case (Cons x xs)
  show ?case
  proof (cases "startswith sub (x # xs)")
    case True
    then have "find_at sub (x # xs) k = int (k + 0) \<and> occurs_at sub (x # xs) 0"
      by (simp add: occurs_at_0)
    then show ?thesis by blast
  next
    case False
    then have f: "find_at sub (x # xs) k = find_at sub xs (Suc k)" by simp
    have no0: "\<not> occurs_at sub (x # xs) 0" using False by (simp add: occurs_at_0)
    have sh: "\<And>j. occurs_at sub (x # xs) j \<longleftrightarrow> (\<exists>i. j = Suc i \<and> occurs_at sub xs i)"
    proof -
      fix j show "occurs_at sub (x # xs) j \<longleftrightarrow> (\<exists>i. j = Suc i \<and> occurs_at sub xs i)"
        using no0 by (cases j) (simp_all add: occurs_at_drop)
    qed
    from Cons.IH [of "Suc k"] show ?thesis
    proof
      assume "find_at sub xs (Suc k) = - 1 \<and> (\<forall>j. \<not> occurs_at sub xs j)"
      then show ?thesis using f sh by simp
    next
      assume "\<exists>i. find_at sub xs (Suc k) = int (Suc k + i) \<and> occurs_at sub xs i \<and>
                (\<forall>j<i. \<not> occurs_at sub xs j)"
      then obtain i where i: "find_at sub xs (Suc k) = int (Suc k + i)" "occurs_at sub xs i"
        "\<forall>j<i. \<not> occurs_at sub xs j" by blast
      have "find_at sub (x # xs) k = int (k + Suc i)" using f i(1) by simp
      moreover have "occurs_at sub (x # xs) (Suc i)" using i(2) by (simp add: occurs_at_drop)
      moreover have "\<forall>j<Suc i. \<not> occurs_at sub (x # xs) j"
        using i(3) sh by auto
      ultimately show ?thesis by blast
    qed
  qed
qed

lemma py_find_cases:
  "(py_find s sub = - 1 \<and> (\<forall>j. \<not> occurs_at sub s j)) \<or>
   (\<exists>i. py_find s sub = int i \<and> occurs_at sub s i \<and> (\<forall>j<i. \<not> occurs_at sub s j))"
  using find_at_cases [of sub s 0] by (simp add: py_find_def)

lemma py_find_pos:
  assumes "0 < py_find s sub"
  shows "occurs_at sub s (nat (py_find s sub))"
    and "\<forall>j<nat (py_find s sub). \<not> occurs_at sub s j"
  using py_find_cases [of s sub] assms by auto

lemma py_find_startswith:
  assumes "startswith sub s"
  shows "py_find s sub = 0"
proof -
  from assms have o: "occurs_at sub s 0" by (simp add: occurs_at_0)
  from py_find_cases [of s sub] o obtain i where
    i: "py_find s sub = int i" "\<forall>j<i. \<not> occurs_at sub s j" by blast
  from i(2) o have "i = 0" by (cases i) auto
  with i(1) show ?thesis by simp
qed


lemma length_le16 [simp]: "length (le16 v) = 2"
  by (simp add: le16_def)

lemma length_signature [simp]: "length libcrypt_signature = 4"
  by (simp add: libcrypt_signature_def)

lemma take_app3: "length xs = p \<Longrightarrow> length ys = q \<Longrightarrow> take (p + q) (xs @ ys @ zs) = xs @ ys"
  by simp

lemma drop_app3:
  "length xs = p \<Longrightarrow> length ys = q \<Longrightarrow> drop (p + q + r) (xs @ ys @ zs) = drop r zs"
  by simp

lemma drop_app3_0:
  "length xs = p \<Longrightarrow> length ys = q \<Longrightarrow> drop (p + q) (xs @ ys @ zs) = zs"
  by simp

lemma length_patched:
  "p + 4 \<le> length w \<Longrightarrow> length (take p w @ le16 a @ le16 b @ drop (p + 4) w) = length w"
  by simp

lemma hit_fits:
  assumes "0 < py_find w libcrypt_signature"
  shows "nat (py_find w libcrypt_signature) + 4 \<le> length w"
  using py_find_pos(1) [OF assms] by (simp add: occurs_at_def)

lemma length_patch_window [simp]: "length (patch_window magic_word w) = length w"
proof (cases "0 < py_find w libcrypt_signature")
  case True
  have "patch_window magic_word w
        = take (nat (py_find w libcrypt_signature)) w @ le16 magic_word @ le16 0x34c6
          @ drop (nat (py_find w libcrypt_signature) + 4) w"
    using True by (simp only: patch_window_def Let_def if_True)
  then show ?thesis
    using length_patched [OF hit_fits [OF True]] by simp
next
  case False
  then show ?thesis by (simp add: patch_window_def Let_def)
qed

lemma patch_window_Nil [simp]: "patch_window magic_word [] = []"
  by (simp add: patch_window_def py_find_def libcrypt_signature_def)

lemma patch_signature_ok:
  assumes "0 \<le> magic_word" "magic_word \<le> 65535" "0 < py_find buf libcrypt_signature"
  shows "patch_signature buf (nat (py_find buf libcrypt_signature)) magic_word
         = Inr (patch_window magic_word buf)"
proof -
  let ?p = "nat (py_find buf libcrypt_signature)"
  have fit: "?p + 4 \<le> length buf" by (rule hit_fits [OF assms(3)])
  have one: "pack_into_H buf ?p magic_word
             = Inr (take ?p buf @ le16 magic_word @ drop (?p + 2) buf)"
    using assms(1,2) fit by (simp add: pack_into_H_def)
  let ?b1 = "take ?p buf @ le16 magic_word @ drop (?p + 2) buf"
  have lp: "length (take ?p buf) = ?p" using fit by simp
  have l1: "length ?b1 = length buf" using fit by simp
  have t1: "take (?p + 2) ?b1 = take ?p buf @ le16 magic_word"
    by (rule take_app3 [OF lp length_le16])
  have "drop (?p + 2 + 2) ?b1 = drop 2 (drop (?p + 2) buf)"
    by (rule drop_app3 [OF lp length_le16])
  moreover have "2 + (?p + 2) = ?p + 4" by simp
  ultimately have d1: "drop (?p + 2 + 2) ?b1 = drop (?p + 4) buf"
    by (simp only: drop_drop)
  have "\<not> length ?b1 < ?p + 2 + 2" unfolding l1 using fit by simp
  then have two: "pack_into_H ?b1 (?p + 2) 0x34c6
             = Inr (take ?p buf @ le16 magic_word @ le16 0x34c6 @ drop (?p + 4) buf)"
    unfolding pack_into_H_def t1 d1 by simp
  show ?thesis
    unfolding patch_signature_def one bind_err_def
    using two assms(3) by (simp add: patch_window_def Let_def)
qed

lemma length_patch_all [simp]: "length (patch_all magic_word xs) = length xs"
proof (induction magic_word xs rule: patch_all.induct)
  case (1 magic_word xs)
  show ?case
  proof (cases "xs = []")
    case True
    then show ?thesis by (subst patch_all.simps) simp
  next
    case False
    with 1 show ?thesis by (subst patch_all.simps) simp
  qed
qed

lemma auto_patch_loop_content:
  "0 \<le> magic_word \<Longrightarrow> magic_word \<le> 65535 \<Longrightarrow>
   \<exists>f' out'. auto_patch_loop magic_word f out = Inr (f', out') \<and>
      content f' = take (fpos f) (content f) @ patch_all magic_word (drop (fpos f) (content f))"
proof (induction magic_word f out rule: auto_patch_loop.induct)
  case (1 magic_word f out)
  define c where "c = content f"
  define p where "p = fpos f"
  define buf where "buf = take 0x9300 (drop p c)"
  define f1 where "f1 = f\<lparr>fpos := p + length buf\<rparr>"
  have rd: "fst (f_read 0x9300 f) = buf" "snd (f_read 0x9300 f) = f1" "f_tell f = p"
    by (simp_all add: f_read_def f_tell_def Let_def buf_def f1_def c_def p_def)
  note mw = "1.prems"
  show ?case
  proof (cases "buf = []")
    case True
    then have d: "drop p c = []" unfolding buf_def by (simp add: take_eq_Nil)
    have "auto_patch_loop magic_word f out = Inr (f1, out)"
      by (subst auto_patch_loop.simps) (simp add: rd True Let_def)
    moreover have "content f1 = take p c @ patch_all magic_word (drop p c)"
      using d by (subst patch_all.simps) (simp add: f1_def c_def)
    ultimately show ?thesis unfolding c_def p_def by blast
  next
    case False
    have blen: "p + length buf \<le> length c" and plt: "p < length c"
      using False unfolding buf_def by auto
    have rest: "drop 0x9300 (drop p c) = drop (p + length buf) c"
    proof (cases "length (drop p c) \<le> 0x9300")
      case True
      then have "length buf = length c - p" unfolding buf_def by simp
      with True show ?thesis by simp
    next
      case False
      then have "length buf = 0x9300" unfolding buf_def by simp
      then show ?thesis by (simp add: add.commute)
    qed
    have split: "c = take p c @ buf @ drop (p + length buf) c"
    proof -
      have "drop p c = buf @ drop 0x9300 (drop p c)"
        unfolding buf_def by (rule append_take_drop_id [symmetric])
      then have "take p c @ drop p c = take p c @ buf @ drop (p + length buf) c"
        unfolding rest by simp
      then show ?thesis by simp
    qed
    have lp: "length (take p c) = p" using plt by simp
    have dne: "drop p c \<noteq> []" using plt by simp
    have "patch_all magic_word (drop p c)
          = patch_window magic_word (take 0x9300 (drop p c))
            @ patch_all magic_word (drop 0x9300 (drop p c))"
      using dne by (subst patch_all.simps) simp
    then have target: "take p c @ patch_all magic_word (drop p c)
                  = take p c @ patch_window magic_word buf
                    @ patch_all magic_word (drop (p + length buf) c)"
      unfolding buf_def [symmetric] rest by simp
    show ?thesis
    proof (cases "0 < py_find buf libcrypt_signature")
      case True
      let ?b2 = "patch_window magic_word buf"
      let ?f2 = "f_write ?b2 (f_seek p f1)"
      let ?out2 = "out @ [''Found libcrypt signature. Patching it'']"
      have ps: "patch_signature buf (nat (py_find buf libcrypt_signature)) magic_word = Inr ?b2"
        by (rule patch_signature_ok [OF mw True])
      have step: "auto_patch_loop magic_word f out = auto_patch_loop magic_word ?f2 ?out2"
        by (subst auto_patch_loop.simps) (simp add: rd False True ps Let_def)
      have ne: "?b2 \<noteq> []"
      proof
        assume "?b2 = []"
        then have "length ?b2 = 0" by simp
        then have "length buf = 0" by (simp only: length_patch_window)
        with False show False by simp
      qed
      have c2: "content ?f2 = take p c @ ?b2 @ drop (p + length buf) c"
        using blen ne by (simp add: f_write_def f_seek_def write_at_def f1_def c_def Let_def)
      have p2: "fpos ?f2 = p + length buf"
        by (simp add: f_write_def f_seek_def)
      from "1.IH"(1) [OF rd(3) [symmetric] rd(1) [symmetric] rd(2) [symmetric] False refl True ps mw]
      obtain f' out' where
        r: "auto_patch_loop magic_word ?f2 ?out2 = Inr (f', out')" and
        cf: "content f' = take (fpos ?f2) (content ?f2)
                          @ patch_all magic_word (drop (fpos ?f2) (content ?f2))"
        by blast
      have lb2: "length ?b2 = length buf" by simp
      have tk: "take (p + length buf) (take p c @ ?b2 @ drop (p + length buf) c) = take p c @ ?b2"
        by (rule take_app3 [OF lp lb2])
      have dr: "drop (p + length buf) (take p c @ ?b2 @ drop (p + length buf) c)
                = drop (p + length buf) c"
        by (rule drop_app3_0 [OF lp lb2])
      have "content f' = take p c @ ?b2 @ patch_all magic_word (drop (p + length buf) c)"
        unfolding cf c2 p2 tk dr by simp
      with r step target show ?thesis unfolding c_def p_def by simp
    next
      case nohit: False
      have step: "auto_patch_loop magic_word f out = auto_patch_loop magic_word f1 out"
        by (subst auto_patch_loop.simps) (simp add: rd False nohit Let_def)
      have pw: "patch_window magic_word buf = buf"
        using nohit by (simp add: patch_window_def Let_def)
      from "1.IH"(2) [OF rd(3) [symmetric] rd(1) [symmetric] rd(2) [symmetric] False refl nohit mw]
      obtain f' out' where
        r: "auto_patch_loop magic_word f1 out = Inr (f', out')" and
        cf: "content f' = take (fpos f1) (content f1)
                          @ patch_all magic_word (drop (fpos f1) (content f1))"
        by blast
      have "take (p + length buf) (take p c @ buf @ drop (p + length buf) c) = take p c @ buf"
        by (rule take_app3 [OF lp refl])
      then have "take (p + length buf) c = take p c @ buf"
        using split by simp
      then have "content f' = take p c @ buf @ patch_all magic_word (drop (p + length buf) c)"
        unfolding cf by (simp add: f1_def c_def)
      with r step target pw show ?thesis unfolding c_def p_def by simp
    qed
  qed
qed

lemma apply_ppf_auto_patch_all:
  assumes "0 \<le> magic_word" "magic_word \<le> 65535"
  shows "\<exists>out'. apply_ppf_auto name data magic_word out = Inr (patch_all magic_word data, out')"
proof -
  from auto_patch_loop_content [OF assms, of "f_open data"
      "out @ [''Try to automatically generate libcrypt patch for '' @ name]"]
  obtain f' out' where
    "auto_patch_loop magic_word (f_open data)
       (out @ [''Try to automatically generate libcrypt patch for '' @ name]) = Inr (f', out')"
    "content f' = patch_all magic_word data"
    by (auto simp: f_open_def)
  then show ?thesis by (simp add: apply_ppf_auto_def bind_err_def)
qed

lemma window_0: "window n xs 0 = take n xs"
  by (simp add: window_def py_slice_def)

lemma window_Suc: "window n xs (Suc k) = window n (drop n xs) k"
  by (simp add: window_def py_slice_def add.commute)

lemma window_patch_all:
  "window 0x9300 (patch_all magic_word xs) k = patch_window magic_word (window 0x9300 xs k)"
proof (induction magic_word xs arbitrary: k rule: patch_all.induct)
  case (1 magic_word xs)
  show ?case
  proof (cases "xs = []")
    case True
    then have "patch_all magic_word xs = []" by (subst patch_all.simps) simp
    with True show ?thesis by (simp add: window_def py_slice_def)
  next
    case False
    let ?pw = "patch_window magic_word (take 0x9300 xs)"
    let ?rest = "patch_all magic_word (drop 0x9300 xs)"
    have pa: "patch_all magic_word xs = ?pw @ ?rest"
      using False by (subst patch_all.simps) simp
    have lpw: "length ?pw = min (length xs) 0x9300" by simp
    have short: "?rest = []" if "length xs < 0x9300"
      using that by (subst patch_all.simps) simp
    show ?thesis
    proof (cases k)
      case 0
      have "take 0x9300 (?pw @ ?rest) = ?pw"
      proof (cases "length xs < 0x9300")
        case True
        then show ?thesis using short lpw by simp
      next
        case False
        then show ?thesis using lpw by simp
      qed
      then show ?thesis unfolding 0 window_0 pa .
    next
      case (Suc j)
      have "drop 0x9300 (?pw @ ?rest) = ?rest"
      proof (cases "length xs < 0x9300")
        case True
        then show ?thesis using short lpw by simp
      next
        case False
        then show ?thesis using lpw by simp
      qed
      then have "window 0x9300 (patch_all magic_word xs) k = window 0x9300 ?rest j"
        unfolding Suc window_Suc pa by simp
      also have "\<dots> = patch_window magic_word (window 0x9300 (drop 0x9300 xs) j)"
        by (rule "1.IH" [OF False])
      finally show ?thesis unfolding Suc window_Suc .
    qed
  qed
qed

lemma patch_window_two_hits:
  "patch_window 0x1234 two_hits = [0, 0x34, 0x12, 0xc6, 0x34, 0x25, 0x30, 0x86, 0x00]"
  by (simp add: patch_window_def two_hits_def libcrypt_signature_def py_find_def
      startswith_def le16_def)

lemma patch_all_two_hits:
  "patch_all 0x1234 two_hits = [0, 0x34, 0x12, 0xc6, 0x34, 0x25, 0x30, 0x86, 0x00]"
proof -
  have l: "length two_hits = 9" by (simp add: two_hits_def)
  have "patch_all 0x1234 (drop 0x9300 two_hits) = []"
    using l by (subst patch_all.simps) simp
  moreover have "take 0x9300 two_hits = two_hits" using l by simp
  moreover have "two_hits \<noteq> []" by (simp add: two_hits_def)
  ultimately show ?thesis
    by (subst patch_all.simps) (simp add: patch_window_two_hits)
qed

text \<open>
  Claim C4 says that every occurrence of the signature in the image is overwritten. In
  the 9-byte image \<open>two_hits\<close> the signature occurs at offsets 1 and 5, both in the only
  window; the search returns the first one, so offset 5 keeps the signature bytes.
\<close>

theorem auto_patch_every_occurrence_counterexample:
  "occurs_at libcrypt_signature two_hits 5 \<and>
   fst (projr (apply_ppf_auto ''LCP00.bin'' two_hits 0x1234 []))
     = [0, 0x34, 0x12, 0xc6, 0x34, 0x25, 0x30, 0x86, 0x00] \<and>
   py_slice (fst (projr (apply_ppf_auto ''LCP00.bin'' two_hits 0x1234 []))) 5 7 \<noteq> le16 0x1234"
proof -
  have "occurs_at libcrypt_signature two_hits 5"
    by (simp add: occurs_at_def two_hits_def libcrypt_signature_def py_slice_def)
  moreover from apply_ppf_auto_patch_all [of "0x1234" "''LCP00.bin''" two_hits "[]"]
  have "fst (projr (apply_ppf_auto ''LCP00.bin'' two_hits 0x1234 []))
     = [0, 0x34, 0x12, 0xc6, 0x34, 0x25, 0x30, 0x86, 0x00]"
    by (auto simp: patch_all_two_hits)
  ultimately show ?thesis by (simp add: py_slice_def le16_def)
qed

lemma slice_in_window:
  assumes "a \<le> b" "b \<le> n"
  shows "py_slice xs (k * n + a) (k * n + b) = py_slice (window n xs k) a b"
proof -
  have "py_slice (window n xs k) a b = take (b - a) (drop a (take n (drop (k * n) xs)))"
    by (simp add: window_def py_slice_def)
  also have "\<dots> = take (b - a) (take (n - a) (drop a (drop (k * n) xs)))"
    by (simp add: drop_take)
  also have "\<dots> = take (b - a) (drop (k * n + a) xs)"
    using assms by (simp add: min_def add.commute)
  finally show ?thesis by (simp add: py_slice_def)
qed

lemma length_window_le: "length (window n xs k) \<le> n"
  by (simp add: window_def py_slice_def)

text \<open>
  Claim C4, for the occurrence that the search of a window returns. With a 16-bit
  \<open>magic_word\<close>, the image is scanned in consecutive windows of \<open>0x9300\<close> bytes from
  start to end, and the scan goes on after a hit: for every window \<open>k\<close> whose first
  occurrence of the signature lies at a window offset \<open>pos > 0\<close>, at the image offset
  \<open>off = k * 0x9300 + pos\<close> the result holds \<open>magic_word\<close> in little-endian order in
  its bytes \<open>off, off + 1\<close> and \<open>0x34c6\<close> in little-endian order in the next two; the
  image keeps its length.
\<close>

theorem auto_patch_first_hit_patched:
  assumes "0 \<le> magic_word" and "magic_word \<le> 65535"
    and "0 < py_find (window 0x9300 data k) libcrypt_signature"
    and "off = k * 0x9300 + nat (py_find (window 0x9300 data k) libcrypt_signature)"
  shows "\<exists>res out'. apply_ppf_auto name data magic_word out = Inr (res, out') \<and>
           length res = length data \<and>
           py_slice data off (off + 4) = libcrypt_signature \<and>
           py_slice res off (off + 2) = le16 magic_word \<and>
           py_slice res (off + 2) (off + 4) = le16 0x34c6"
proof -
  let ?w = "window 0x9300 data k"
  let ?p = "nat (py_find ?w libcrypt_signature)"
  let ?res = "patch_all magic_word data"
  from apply_ppf_auto_patch_all [OF assms(1,2)] obtain out' where
    r: "apply_ppf_auto name data magic_word out = Inr (?res, out')" by blast
  have fit: "?p + 4 \<le> length ?w" by (rule hit_fits [OF assms(3)])
  with length_window_le [of "0x9300" data k] have fitn: "?p + 4 \<le> 0x9300" by simp
  have lp: "length (take ?p ?w) = ?p" using fit by simp
  have w': "window 0x9300 ?res k
            = take ?p ?w @ le16 magic_word @ le16 0x34c6 @ drop (?p + 4) ?w"
    unfolding window_patch_all using assms(3) by (simp add: patch_window_def Let_def)
  have occ: "occurs_at libcrypt_signature ?w ?p" by (rule py_find_pos(1) [OF assms(3)])
  have s0: "py_slice data off (off + 4) = libcrypt_signature"
  proof -
    have "py_slice data (k * 0x9300 + ?p) (k * 0x9300 + (?p + 4)) = py_slice ?w ?p (?p + 4)"
      using fitn by (intro slice_in_window) simp_all
    with occ show ?thesis unfolding assms(4) by (simp add: occurs_at_def add.assoc)
  qed
  have s1: "py_slice ?res off (off + 2) = le16 magic_word"
  proof -
    have "py_slice ?res (k * 0x9300 + ?p) (k * 0x9300 + (?p + 2))
          = py_slice (window 0x9300 ?res k) ?p (?p + 2)"
      using fitn by (intro slice_in_window) simp_all
    also have "\<dots> = le16 magic_word"
      unfolding w' py_slice_def using lp by simp
    finally show ?thesis unfolding assms(4) by (simp add: add.assoc)
  qed
  have s2: "py_slice ?res (off + 2) (off + 4) = le16 0x34c6"
  proof -
    have "py_slice ?res (k * 0x9300 + (?p + 2)) (k * 0x9300 + (?p + 4))
          = py_slice (window 0x9300 ?res k) (?p + 2) (?p + 4)"
      using fitn by (intro slice_in_window) simp_all
    also have "\<dots> = take 2 (drop (?p + 2) ((take ?p ?w @ le16 magic_word) @ le16 0x34c6 @ drop (?p + 4) ?w))"
      unfolding w' py_slice_def by simp
    also have "\<dots> = le16 0x34c6"
      using lp by (subst drop_append) simp
    finally show ?thesis unfolding assms(4) by (simp add: add.assoc)
  qed
  show ?thesis
    using r s0 s1 s2 by (intro exI [of _ ?res] exI [of _ out']) simp
qed

text \<open>On \<open>two_hits\<close> with magic word \<open>0x1234\<close>: bytes 1 to 4 become \<open>34 12 c6 34\<close>.\<close>

theorem auto_patch_first_hit_patched_witness:
  "(0::int) \<le> 0x1234 \<and> (0x1234::int) \<le> 65535 \<and>
   0 < py_find (window 0x9300 two_hits 0) libcrypt_signature \<and>
   (\<exists>res out'. apply_ppf_auto ''LCP00.bin'' two_hits 0x1234 [] = Inr (res, out') \<and>
      length res = 9 \<and>
      py_slice two_hits 1 5 = libcrypt_signature \<and>
      py_slice res 1 3 = [0x34, 0x12] \<and> py_slice res 3 5 = [0xc6, 0x34])"
proof -
  have w: "window 0x9300 two_hits 0 = two_hits"
    by (simp add: window_def py_slice_def two_hits_def libcrypt_signature_def)
  have f: "py_find two_hits libcrypt_signature = 1"
    by (simp add: two_hits_def libcrypt_signature_def py_find_def startswith_def)
  have h: "0 < py_find (window 0x9300 two_hits 0) libcrypt_signature"
    unfolding w f by simp
  have o: "(1::nat) = 0 * 0x9300 + nat (py_find (window 0x9300 two_hits 0) libcrypt_signature)"
    unfolding w f by simp
  have l: "length two_hits = 9" by (simp add: two_hits_def)
  have a: "(0::int) \<le> 0x1234" and b: "(0x1234::int) \<le> 65535" by simp_all
  have v: "le16 0x1234 = [0x34, 0x12]" "le16 0x34c6 = [0xc6, 0x34]"
    by (simp_all add: le16_def)
  have e: "(1::nat) + 2 = 3" "(1::nat) + 4 = 5" by simp_all
  note t = auto_patch_first_hit_patched [of "0x1234" two_hits 0 1 "''LCP00.bin''" "[]",
      OF a b h o, unfolded v l e]
  from a b h t show ?thesis by (intro conjI)
qed

lemma patch_window_changes:
  assumes "i < length w" and "patch_window magic_word w ! i \<noteq> w ! i"
  shows "0 < py_find w libcrypt_signature \<and>
         nat (py_find w libcrypt_signature) \<le> i \<and> i < nat (py_find w libcrypt_signature) + 4"
proof -
  let ?p = "nat (py_find w libcrypt_signature)"
  have hit: "0 < py_find w libcrypt_signature"
  proof (rule ccontr)
    assume "\<not> 0 < py_find w libcrypt_signature"
    then have "patch_window magic_word w = w" by (simp add: patch_window_def Let_def)
    with assms(2) show False by simp
  qed
  have fit: "?p + 4 \<le> length w" by (rule hit_fits [OF hit])
  let ?x = "le16 magic_word @ le16 0x34c6"
  have pw: "patch_window magic_word w = take ?p w @ ?x @ drop (?p + 4) w"
    using hit by (simp add: patch_window_def Let_def)
  have lo: "\<not> i < ?p"
  proof
    assume "i < ?p"
    then have "patch_window magic_word w ! i = w ! i"
      unfolding pw using fit by (simp add: nth_append)
    with assms(2) show False by simp
  qed
  have hi: "i < ?p + 4"
  proof (rule ccontr)
    assume h: "\<not> i < ?p + 4"
    have lt: "length (take ?p w @ ?x) = ?p + 4" using fit by simp
    have "(take ?p w @ ?x) @ drop (?p + 4) w = patch_window magic_word w"
      unfolding pw by simp
    then have "patch_window magic_word w ! i = drop (?p + 4) w ! (i - (?p + 4))"
      using h lt by (metis nth_append)
    also have "\<dots> = w ! i" using h fit assms(1) by simp
    finally show False using assms(2) by simp
  qed
  from hit lo hi show ?thesis by simp
qed

text \<open>
  Claim C10. In each window of \<open>0x9300\<close> bytes the automatic patch changes bytes of at
  most one occurrence of the signature, the first one that the search finds there: every
  changed byte lies within the four bytes at the offset \<open>pos > 0\<close> that the search returns,
  and no occurrence begins before it. A window that begins with the signature is left as
  it is, since the test is \<open>pos > 0\<close>.
\<close>

theorem auto_patch_one_hit_per_window:
  assumes "0 \<le> magic_word" and "magic_word \<le> 65535"
  shows "\<exists>res out'. apply_ppf_auto name data magic_word out = Inr (res, out') \<and>
           length res = length data \<and>
           (\<forall>k. (startswith libcrypt_signature (window 0x9300 data k)
                   \<longrightarrow> window 0x9300 res k = window 0x9300 data k) \<and>
                (\<forall>i<length (window 0x9300 data k).
                   window 0x9300 res k ! i \<noteq> window 0x9300 data k ! i \<longrightarrow>
                     0 < py_find (window 0x9300 data k) libcrypt_signature \<and>
                     occurs_at libcrypt_signature (window 0x9300 data k)
                       (nat (py_find (window 0x9300 data k) libcrypt_signature)) \<and>
                     (\<forall>j<nat (py_find (window 0x9300 data k) libcrypt_signature).
                        \<not> occurs_at libcrypt_signature (window 0x9300 data k) j) \<and>
                     nat (py_find (window 0x9300 data k) libcrypt_signature) \<le> i \<and>
                     i < nat (py_find (window 0x9300 data k) libcrypt_signature) + 4))"
proof -
  let ?res = "patch_all magic_word data"
  from apply_ppf_auto_patch_all [OF assms] obtain out' where
    r: "apply_ppf_auto name data magic_word out = Inr (?res, out')" by blast
  have per: "(startswith libcrypt_signature (window 0x9300 data k)
                   \<longrightarrow> window 0x9300 ?res k = window 0x9300 data k) \<and>
                (\<forall>i<length (window 0x9300 data k).
                   window 0x9300 ?res k ! i \<noteq> window 0x9300 data k ! i \<longrightarrow>
                     0 < py_find (window 0x9300 data k) libcrypt_signature \<and>
                     occurs_at libcrypt_signature (window 0x9300 data k)
                       (nat (py_find (window 0x9300 data k) libcrypt_signature)) \<and>
                     (\<forall>j<nat (py_find (window 0x9300 data k) libcrypt_signature).
                        \<not> occurs_at libcrypt_signature (window 0x9300 data k) j) \<and>
                     nat (py_find (window 0x9300 data k) libcrypt_signature) \<le> i \<and>
                     i < nat (py_find (window 0x9300 data k) libcrypt_signature) + 4)" for k
  proof -
    let ?w = "window 0x9300 data k"
    have first: "window 0x9300 ?res k = ?w" if "startswith libcrypt_signature ?w"
      unfolding window_patch_all
      using py_find_startswith [OF that] by (simp add: patch_window_def)
    have changes: "0 < py_find ?w libcrypt_signature \<and>
          occurs_at libcrypt_signature ?w (nat (py_find ?w libcrypt_signature)) \<and>
          (\<forall>j<nat (py_find ?w libcrypt_signature). \<not> occurs_at libcrypt_signature ?w j) \<and>
          nat (py_find ?w libcrypt_signature) \<le> i \<and>
          i < nat (py_find ?w libcrypt_signature) + 4"
      if "i < length ?w" "window 0x9300 ?res k ! i \<noteq> ?w ! i" for i
    proof -
      from that(2) have "patch_window magic_word ?w ! i \<noteq> ?w ! i"
        unfolding window_patch_all .
      from patch_window_changes [OF that(1) this]
      have c: "0 < py_find ?w libcrypt_signature \<and>
         nat (py_find ?w libcrypt_signature) \<le> i \<and> i < nat (py_find ?w libcrypt_signature) + 4" .
      then have h: "0 < py_find ?w libcrypt_signature" by simp
      from c py_find_pos [OF h] show ?thesis by simp
    qed
    from first changes show ?thesis by blast
  qed
  show ?thesis
    using r per by (intro exI [of _ ?res] exI [of _ out']) simp
qed

text \<open>An image that is the signature twice: the hit at offset 0 stops the search of the
  window, and nothing is patched.\<close>

theorem auto_patch_one_hit_per_window_witness:
  "(0::int) \<le> 0x1234 \<and> (0x1234::int) \<le> 65535 \<and>
   startswith libcrypt_signature (window 0x9300 (libcrypt_signature @ libcrypt_signature) 0) \<and>
   (\<exists>res out'. apply_ppf_auto ''LCP00.bin'' (libcrypt_signature @ libcrypt_signature) 0x1234 []
                  = Inr (res, out') \<and>
      length res = 8 \<and>
      window 0x9300 res 0 = libcrypt_signature @ libcrypt_signature)"
proof -
  let ?d = "libcrypt_signature @ libcrypt_signature"
  have a: "(0::int) \<le> 0x1234" and b: "(0x1234::int) \<le> 65535" by simp_all
  have w: "window 0x9300 ?d 0 = ?d"
    by (simp add: window_def py_slice_def)
  have s: "startswith libcrypt_signature (window 0x9300 ?d 0)"
    unfolding w by (simp add: startswith_def)
  from auto_patch_one_hit_per_window [OF a b, of "''LCP00.bin''" ?d "[]"]
  obtain res out' where
    r: "apply_ppf_auto ''LCP00.bin'' ?d 0x1234 [] = Inr (res, out')"
    and l: "length res = length ?d"
    and k: "startswith libcrypt_signature (window 0x9300 ?d 0)
            \<longrightarrow> window 0x9300 res 0 = window 0x9300 ?d 0"
    by blast
  from k s w have "window 0x9300 res 0 = ?d" by simp
  moreover from l have "length res = 8" by simp
  ultimately show ?thesis using a b s r by blast
qed

section \<open>Properties of the magic-word derivation\<close>

lemma sublist_occurs: "sublist sub s \<longleftrightarrow> (\<exists>i. occurs_at sub s i)"
proof
  assume "sublist sub s"
  then obtain ps ss where "s = ps @ sub @ ss" by (auto simp: sublist_def)
  then have "occurs_at sub s (length ps)" by (simp add: occurs_at_def py_slice_def)
  then show "\<exists>i. occurs_at sub s i" ..
next
  assume "\<exists>i. occurs_at sub s i"
  then obtain i where i: "i + length sub \<le> length s" "take (length sub) (drop i s) = sub"
    by (auto simp: occurs_at_def py_slice_def)
  have "s = take i s @ take (length sub) (drop i s) @ drop (length sub) (drop i s)"
    by (simp only: append_take_drop_id)
  with i(2) have "s = take i s @ sub @ drop (length sub) (drop i s)" by simp
  then show "sublist sub s" unfolding sublist_def by blast
qed

lemma py_find_absent: "py_find s sub = - 1 \<longleftrightarrow> \<not> sublist sub s"
  using py_find_cases [of s sub] by (auto simp: sublist_occurs)

lemma py_find_pos_iff:
  assumes "sub \<noteq> []" and "s = [] \<or> hd s \<noteq> hd sub"
  shows "0 < py_find s sub \<longleftrightarrow> sublist sub s"
proof -
  have no0: "\<not> occurs_at sub s 0"
  proof
    assume "occurs_at sub s 0"
    then have "take (length sub) s = sub" by (simp add: occurs_at_0 startswith_def)
    with assms show False by (cases s; cases sub) auto
  qed
  from py_find_cases [of s sub] show ?thesis
  proof
    assume "py_find s sub = - 1 \<and> (\<forall>j. \<not> occurs_at sub s j)"
    then show ?thesis by (simp add: sublist_occurs)
  next
    assume "\<exists>i. py_find s sub = int i \<and> occurs_at sub s i \<and> (\<forall>j<i. \<not> occurs_at sub s j)"
    then obtain i where i: "py_find s sub = int i" "occurs_at sub s i" by blast
    have "i \<noteq> 0"
    proof
      assume "i = 0"
      with i(2) no0 show False by simp
    qed
    then have "0 < py_find s sub" using i(1) by simp
    moreover have "sublist sub s" using i(2) sublist_occurs by blast
    ultimately show ?thesis by simp
  qed
qed

lemma occurs_at_take: "occurs_at sub s i \<Longrightarrow> take (length sub) (drop i s) = sub"
  by (simp add: occurs_at_def py_slice_def)

lemma take_Cons_eq:
  assumes "take (length (c # m)) t = c # m"
  obtains r where "t = c # r"
  using assms by (cases t) auto

lemma section_head:
  assumes "sublist ''Sectors with LibCrypt protection'' b"
  shows "section_of b = [] \<or> hd (section_of b) = CHR ''S''"
proof -
  let ?h = "''Sectors with LibCrypt protection''"
  from assms have "py_find b ?h \<noteq> - 1" by (simp add: py_find_absent)
  with py_find_cases [of b ?h] obtain i where
    i: "py_find b ?h = int i" "occurs_at ?h b i" by auto
  have b1: "slice_from b (py_find b ?h) = drop i b"
    by (simp add: slice_from_def py_index_def i(1))
  from i(2) have "take (length ?h) (drop i b) = ?h"
    by (rule occurs_at_take)
  then obtain r where r: "drop i b = CHR ''S'' # r"
    by (rule take_Cons_eq)
  have "section_of b = take (py_index (drop i b) (py_find (drop i b) ''table'')) (drop i b)"
    by (simp add: section_of_def protection_section_def b1 slice_to_def Let_def)
  then show ?thesis
    unfolding r by (cases "py_index (CHR ''S'' # r) (py_find (CHR ''S'' # r) ''table'')") auto
qed

lemma bit_mark:
  "bit (mark b x y v mw) n \<longleftrightarrow> bit mw n \<or> ((0 < py_find b x \<or> 0 < py_find b y) \<and> bit v n)"
  by (auto simp: mark_def bit_or_iff)

lemma bit_pow: "bit ((2::int) ^ m) n \<longleftrightarrow> n = m"
  by (auto simp: bit_exp_iff)

lemma bit_hex:
  "bit (0x8000::int) n \<longleftrightarrow> n = 15" "bit (0x4000::int) n \<longleftrightarrow> n = 14"
  "bit (0x2000::int) n \<longleftrightarrow> n = 13" "bit (0x1000::int) n \<longleftrightarrow> n = 12"
  "bit (0x0800::int) n \<longleftrightarrow> n = 11" "bit (0x0400::int) n \<longleftrightarrow> n = 10"
  "bit (0x0200::int) n \<longleftrightarrow> n = 9" "bit (0x0100::int) n \<longleftrightarrow> n = 8"
  "bit (0x0080::int) n \<longleftrightarrow> n = 7" "bit (0x0040::int) n \<longleftrightarrow> n = 6"
  "bit (0x0020::int) n \<longleftrightarrow> n = 5" "bit (0x0010::int) n \<longleftrightarrow> n = 4"
  "bit (0x0008::int) n \<longleftrightarrow> n = 3" "bit (0x0004::int) n \<longleftrightarrow> n = 2"
  "bit (0x0002::int) n \<longleftrightarrow> n = 1" "bit (0x0001::int) n \<longleftrightarrow> n = 0"
  using bit_pow [of 15 n] bit_pow [of 14 n] bit_pow [of 13 n] bit_pow [of 12 n]
    bit_pow [of 11 n] bit_pow [of 10 n] bit_pow [of 9 n] bit_pow [of 8 n]
    bit_pow [of 7 n] bit_pow [of 6 n] bit_pow [of 5 n] bit_pow [of 4 n]
    bit_pow [of 3 n] bit_pow [of 2 n] bit_pow [of 1 n] bit_pow [of 0 n]
  by simp_all

lemma pair_present_nth:
  "pair_present sec 0 \<longleftrightarrow> sublist ''<td>14105</td>'' sec \<or> sublist ''<td>14110</td>'' sec"
  "pair_present sec 1 \<longleftrightarrow> sublist ''<td>14231</td>'' sec \<or> sublist ''<td>14236</td>'' sec"
  "pair_present sec 2 \<longleftrightarrow> sublist ''<td>14485</td>'' sec \<or> sublist ''<td>14490</td>'' sec"
  "pair_present sec 3 \<longleftrightarrow> sublist ''<td>14579</td>'' sec \<or> sublist ''<td>14584</td>'' sec"
  "pair_present sec 4 \<longleftrightarrow> sublist ''<td>14649</td>'' sec \<or> sublist ''<td>14654</td>'' sec"
  "pair_present sec 5 \<longleftrightarrow> sublist ''<td>14899</td>'' sec \<or> sublist ''<td>14904</td>'' sec"
  "pair_present sec 6 \<longleftrightarrow> sublist ''<td>15056</td>'' sec \<or> sublist ''<td>15061</td>'' sec"
  "pair_present sec 7 \<longleftrightarrow> sublist ''<td>15130</td>'' sec \<or> sublist ''<td>15135</td>'' sec"
  "pair_present sec 8 \<longleftrightarrow> sublist ''<td>15242</td>'' sec \<or> sublist ''<td>15247</td>'' sec"
  "pair_present sec 9 \<longleftrightarrow> sublist ''<td>15312</td>'' sec \<or> sublist ''<td>15317</td>'' sec"
  "pair_present sec 10 \<longleftrightarrow> sublist ''<td>15378</td>'' sec \<or> sublist ''<td>15383</td>'' sec"
  "pair_present sec 11 \<longleftrightarrow> sublist ''<td>15628</td>'' sec \<or> sublist ''<td>15633</td>'' sec"
  "pair_present sec 12 \<longleftrightarrow> sublist ''<td>15919</td>'' sec \<or> sublist ''<td>15924</td>'' sec"
  "pair_present sec 13 \<longleftrightarrow> sublist ''<td>16031</td>'' sec \<or> sublist ''<td>16036</td>'' sec"
  "pair_present sec 14 \<longleftrightarrow> sublist ''<td>16101</td>'' sec \<or> sublist ''<td>16106/td>'' sec"
  "pair_present sec 15 \<longleftrightarrow> sublist ''<td>16167</td>'' sec \<or> sublist ''<td>16172</td>'' sec"
  by (simp_all add: pair_present_def marker_pairs_def)

lemma marker_found:
  assumes "sec = [] \<or> hd sec = CHR ''S''"
  shows "0 < py_find sec (CHR ''<'' # m) \<longleftrightarrow> sublist (CHR ''<'' # m) sec"
  using assms by (intro py_find_pos_iff) auto

lemma probe_markers_fold:
  "probe_markers b
   = fold (\<lambda>((x, y), v) mw. mark b x y v mw) (zip marker_pairs marker_values) 0"
  by (simp add: probe_markers_def marker_pairs_def marker_values_def Let_def)

lemma bit_fold_mark:
  "bit (fold (\<lambda>((x, y), v) mw. mark b x y v mw) ps mw) n \<longleftrightarrow>
     bit mw n \<or> (\<exists>((x, y), v)\<in>set ps. (0 < py_find b x \<or> 0 < py_find b y) \<and> bit v n)"
  by (induction ps arbitrary: mw) (auto simp: bit_mark)

lemma below_16:
  "k < (16::nat) \<Longrightarrow>
   k = 0 \<or> k = 1 \<or> k = 2 \<or> k = 3 \<or> k = 4 \<or> k = 5 \<or> k = 6 \<or> k = 7 \<or>
   k = 8 \<or> k = 9 \<or> k = 10 \<or> k = 11 \<or> k = 12 \<or> k = 13 \<or> k = 14 \<or> k = 15"
  by (simp add: eval_nat_numeral less_Suc_eq)

lemma bex_zip:
  assumes "length xs = length ys"
  shows "(\<exists>pv\<in>set (zip xs ys). Q (fst pv) (snd pv)) \<longleftrightarrow> (\<exists>k<length xs. Q (xs ! k) (ys ! k))"
proof
  assume "\<exists>pv\<in>set (zip xs ys). Q (fst pv) (snd pv)"
  then obtain pv where "pv \<in> set (zip xs ys)" and q: "Q (fst pv) (snd pv)" by blast
  then obtain i where "xs ! i = fst pv" "ys ! i = snd pv" "i < length xs"
    by (auto simp: in_set_zip)
  with q show "\<exists>k<length xs. Q (xs ! k) (ys ! k)" by auto
next
  assume "\<exists>k<length xs. Q (xs ! k) (ys ! k)"
  then obtain k where k: "k < length xs" "Q (xs ! k) (ys ! k)" by blast
  with assms have "(xs ! k, ys ! k) \<in> set (zip xs ys)"
    by (auto simp: in_set_zip)
  with k(2) show "\<exists>pv\<in>set (zip xs ys). Q (fst pv) (snd pv)" by force
qed

lemma marker_values_nth: "k < 16 \<Longrightarrow> marker_values ! k = 2 ^ (15 - k)"
proof -
  assume "k < 16"
  then consider "k = 0" | "k = 1" | "k = 2" | "k = 3" | "k = 4" | "k = 5" | "k = 6" | "k = 7"
    | "k = 8" | "k = 9" | "k = 10" | "k = 11" | "k = 12" | "k = 13" | "k = 14" | "k = 15"
    using below_16 by blast
  then show ?thesis
    by cases (simp_all add: marker_values_def)
qed

lemma marker_pairs_shape:
  "k < 16 \<Longrightarrow> \<exists>m m'. marker_pairs ! k = (CHR ''<'' # m, CHR ''<'' # m')"
proof -
  assume "k < 16"
  then consider "k = 0" | "k = 1" | "k = 2" | "k = 3" | "k = 4" | "k = 5" | "k = 6" | "k = 7"
    | "k = 8" | "k = 9" | "k = 10" | "k = 11" | "k = 12" | "k = 13" | "k = 14" | "k = 15"
    using below_16 by blast
  then show ?thesis
    by cases (simp_all add: marker_pairs_def)
qed

lemma marker_lengths: "length marker_pairs = 16" "length marker_values = 16"
  by (simp_all add: marker_pairs_def marker_values_def)

lemma pair_found:
  assumes "sec = [] \<or> hd sec = CHR ''S''" and "k < 16"
  shows "(0 < py_find sec (fst (marker_pairs ! k)) \<or> 0 < py_find sec (snd (marker_pairs ! k)))
         \<longleftrightarrow> pair_present sec k"
proof -
  from marker_pairs_shape [OF assms(2)] obtain m m' where
    "marker_pairs ! k = (CHR ''<'' # m, CHR ''<'' # m')" by blast
  then show ?thesis
    by (simp add: pair_present_def marker_found [OF assms(1)])
qed

lemma probe_markers_bit:
  assumes "sec = [] \<or> hd sec = CHR ''S''"
  shows "bit (probe_markers sec) n \<longleftrightarrow> (\<exists>k<16. pair_present sec k \<and> n = 15 - k)"
proof -
  have "bit (probe_markers sec) n \<longleftrightarrow>
        (\<exists>pv\<in>set (zip marker_pairs marker_values).
           (0 < py_find sec (fst (fst pv)) \<or> 0 < py_find sec (snd (fst pv))) \<and> bit (snd pv) n)"
    unfolding probe_markers_fold bit_fold_mark by (simp add: case_prod_beta)
  also have "\<dots> \<longleftrightarrow>
        (\<exists>k<16. (0 < py_find sec (fst (marker_pairs ! k)) \<or> 0 < py_find sec (snd (marker_pairs ! k)))
                 \<and> bit (marker_values ! k) n)"
    using bex_zip [of marker_pairs marker_values
        "\<lambda>p v. (0 < py_find sec (fst p) \<or> 0 < py_find sec (snd p)) \<and> bit v n"]
    by (simp add: marker_lengths)
  also have "\<dots> \<longleftrightarrow> (\<exists>k<16. pair_present sec k \<and> n = 15 - k)"
  proof -
    have "((0 < py_find sec (fst (marker_pairs ! k)) \<or> 0 < py_find sec (snd (marker_pairs ! k)))
             \<and> bit (marker_values ! k) n) \<longleftrightarrow> (pair_present sec k \<and> n = 15 - k)"
      if "k < 16" for k
      using that by (simp only: pair_found [OF assms that] marker_values_nth [OF that] bit_pow)
    then show ?thesis by blast
  qed
  finally show ?thesis .
qed

lemma generate_magic_word_run:
  assumes "get url = Inr ret" and "status_code ret = 200"
  shows "generate_magic_word get url =
           (if sublist ''Sectors with LibCrypt protection'' (body ret)
            then Inr (probe_markers (section_of (body ret))) else Inr 0)"
  using assms
  by (simp add: generate_magic_word_def bind_err_def Let_def py_find_absent section_of_def)

lemma py_find_first:
  assumes "occurs_at sub s i" and "\<forall>j<i. \<not> occurs_at sub s j"
  shows "py_find s sub = int i"
proof -
  from py_find_cases [of s sub] assms(1) obtain i' where
    i': "py_find s sub = int i'" "occurs_at sub s i'" "\<forall>j<i'. \<not> occurs_at sub s j"
    by blast
  have "\<not> i' < i" using assms(2) i'(2) by blast
  moreover have "\<not> i < i'" using i'(3) assms(1) by blast
  ultimately have "i' = i" by simp
  with i'(1) show ?thesis by simp
qed

lemma startswith_occurs_append:
  assumes "startswith sub sec"
  shows "occurs_at sub (pre @ sec @ rest) (length pre)"
proof -
  from assms have o: "occurs_at sub sec 0" by (simp add: occurs_at_0)
  then have "length sub \<le> length sec" and "take (length sub) sec = sub"
    by (simp_all add: occurs_at_def py_slice_def)
  then show ?thesis by (simp add: occurs_at_def py_slice_def)
qed

text \<open>
  The protection section, said without the slicing of the code: when the text is
  \<open>pre @ sec @ ''table'' @ post\<close>, where \<open>sec\<close> begins with the header, the header does
  not occur earlier and \<^verbatim>\<open>table\<close> does not occur before the end of \<open>sec\<close>, the section is
  \<open>sec\<close>.
\<close>

lemma section_of_cut:
  assumes b: "b = pre @ sec @ ''table'' @ post"
    and h: "startswith ''Sectors with LibCrypt protection'' sec"
    and first: "\<forall>j<length pre. \<not> occurs_at ''Sectors with LibCrypt protection'' b j"
    and cut: "\<forall>j<length sec. \<not> occurs_at ''table'' (sec @ ''table'' @ post) j"
  shows "sublist ''Sectors with LibCrypt protection'' b" and "section_of b = sec"
proof -
  let ?h = "''Sectors with LibCrypt protection''"
  have occ: "occurs_at ?h b (length pre)"
    unfolding b by (rule startswith_occurs_append [OF h])
  then show "sublist ?h b" using sublist_occurs by blast
  have f1: "py_find b ?h = int (length pre)"
    by (rule py_find_first [OF occ first])
  have b1: "slice_from b (py_find b ?h) = sec @ ''table'' @ post"
    unfolding f1 by (simp add: slice_from_def py_index_def b)
  have occ2: "occurs_at ''table'' (sec @ ''table'' @ post) (length sec)"
    by (simp add: occurs_at_def py_slice_def)
  have f2: "py_find (sec @ ''table'' @ post) ''table'' = int (length sec)"
    by (rule py_find_first [OF occ2 cut])
  show "section_of b = sec"
    unfolding section_of_def protection_section_def Let_def b1 f2
    by (simp add: slice_to_def py_index_def)
qed

text \<open>
  For a report fetched with status 200 and such a section, over the sixteen pairs of
  strings as the source has them: bit \<open>15 - k\<close> of the result is set exactly when one of
  the two strings of pair \<open>k\<close> occurs in the section, and no other bit is set.
\<close>

lemma generate_magic_word_bits:
  assumes "get url = Inr ret" and "status_code ret = 200"
    and b: "body ret = pre @ sec @ ''table'' @ post"
    and h: "startswith ''Sectors with LibCrypt protection'' sec"
    and first: "\<forall>j<length pre. \<not> occurs_at ''Sectors with LibCrypt protection'' (body ret) j"
    and cut: "\<forall>j<length sec. \<not> occurs_at ''table'' (sec @ ''table'' @ post) j"
  shows "\<exists>mw. generate_magic_word get url = Inr mw \<and>
           (\<forall>k<16. bit mw (15 - k) \<longleftrightarrow> pair_present sec k) \<and>
           (\<forall>n. bit mw n \<longrightarrow> n < 16)"
proof -
  let ?mw = "probe_markers sec"
  note s = section_of_cut [OF b h first cut]
  have hd: "sec = [] \<or> hd sec = CHR ''S''"
    using section_head [OF s(1)] unfolding s(2) .
  note bt = probe_markers_bit [OF hd]
  have run: "generate_magic_word get url = Inr ?mw"
    using s by (simp add: generate_magic_word_run [of get url ret, OF assms(1,2)])
  have bits: "\<forall>k<16. bit ?mw (15 - k) \<longleftrightarrow> pair_present sec k"
  proof (intro allI impI)
    fix k :: nat assume k: "k < 16"
    have "(\<exists>j<16. pair_present sec j \<and> 15 - k = 15 - j) \<longleftrightarrow> pair_present sec k"
    proof
      assume "\<exists>j<16. pair_present sec j \<and> 15 - k = 15 - j"
      then obtain j where j: "j < 16" "pair_present sec j" "15 - k = 15 - j" by blast
      from j(1,3) k have "j = k" by arith
      with j(2) show "pair_present sec k" by simp
    next
      assume "pair_present sec k"
      with k show "\<exists>j<16. pair_present sec j \<and> 15 - k = 15 - j" by blast
    qed
    then show "bit ?mw (15 - k) \<longleftrightarrow> pair_present sec k" by (simp only: bt)
  qed
  have high: "\<forall>n. bit ?mw n \<longrightarrow> n < 16"
    unfolding bt by auto
  from run bits high show ?thesis by blast
qed

text \<open>A text without the header gives 0, and nothing is raised.\<close>

lemma generate_magic_word_no_header:
  assumes "get url = Inr ret" and "status_code ret = 200"
    and "\<not> sublist ''Sectors with LibCrypt protection'' (body ret)"
  shows "generate_magic_word get url = Inr 0"
  using assms(3) by (simp add: generate_magic_word_run [of get url ret, OF assms(1,2)])

text \<open>A section with the marker of sector 14105 alone gives \<open>0x8000\<close>.\<close>

lemma generate_magic_word_14105:
  "generate_magic_word (\<lambda>u. Inr report_14105) ''https://psxdatacenter.com/x.html'' = Inr 0x8000"
  by code_simp

lemma generate_magic_word_plain:
  "generate_magic_word (\<lambda>u. Inr report_plain) ''https://psxdatacenter.com/x.html'' = Inr 0"
  by code_simp

text \<open>
  Claim C5 says that bit \<open>15 - k\<close> is set when either marker of pair \<open>k\<close> is present in
  the protection section. Pair 14 is made of the sectors 16101 and 16106. The source tests
  the string \<^verbatim>\<open><td>16106/td>\<close> for the second, against \<^verbatim>\<open><td>N</td>\<close> in the other 31
  tests: on a report whose section holds the marker \<^verbatim>\<open><td>16106</td>\<close> the function
  returns 0, where the claim gives \<open>0x0002\<close>, the value that the marker of sector 16101
  yields.
\<close>

theorem generate_magic_word_misses_16106:
  "body report_16106
     = ''<h3>'' @ ''Sectors with LibCrypt protection</h3><td>16106</td></'' @ ''table>'' \<and>
   sublist ''<td>16106</td>'' ''Sectors with LibCrypt protection</h3><td>16106</td></'' \<and>
   generate_magic_word (\<lambda>u. Inr report_16106) ''https://psxdatacenter.com/x.html'' = Inr 0 \<and>
   generate_magic_word (\<lambda>u. Inr report_16101) ''https://psxdatacenter.com/x.html'' = Inr 0x0002"
proof -
  have "body report_16106
     = ''<h3>'' @ ''Sectors with LibCrypt protection</h3><td>16106</td></'' @ ''table>''"
    by (simp add: report_16106_def)
  moreover have
    "sublist ''<td>16106</td>'' ''Sectors with LibCrypt protection</h3><td>16106</td></''"
    by code_simp
  moreover have
    "generate_magic_word (\<lambda>u. Inr report_16106) ''https://psxdatacenter.com/x.html'' = Inr 0"
    by code_simp
  moreover have
    "generate_magic_word (\<lambda>u. Inr report_16101) ''https://psxdatacenter.com/x.html'' = Inr 0x0002"
    by code_simp
  ultimately show ?thesis by (intro conjI)
qed

section \<open>Properties of the table-driven patch\<close>

text \<open>
  The main program calls \<^verbatim>\<open>apply_ppf\<close> only after it has read
  \<^verbatim>\<open>libcrypt[disc_ids[idx]]['magic_word']\<close> for every disc, so the disc is in the table at
  the call. For a disc outside the table the lookup raises.
\<close>

lemma apply_ppf_unregistered:
  "libcrypt E disc_id = None \<Longrightarrow> apply_ppf E w img disc_id magic_word False = Inl KeyError"
  by (simp add: apply_ppf_def apply_ppf_table_def)

lemma files_print [simp]: "files (print l w) = files w"
  and temp_files_print [simp]: "temp_files (print l w) = temp_files w"
  and stdout_print: "stdout (print l w) = stdout w @ [l]"
  by (simp_all add: print_def)

text \<open>
  Claim C8 gives three cases for the lookup and ends with: else a warning, the image
  untouched. For a disc that has no entry in the table none of the three is reached: the
  lookup \<^verbatim>\<open>libcrypt[disc_id]\<close> raises \<^verbatim>\<open>KeyError\<close>.
\<close>

theorem apply_ppf_unregistered_counterexample:
  "libcrypt example_env ''SLUS-00000'' = None \<and>
   apply_ppf example_env example_world ''LCP00.bin'' ''SLUS-00000'' 0 False = Inl KeyError"
  by (simp add: example_env_def apply_ppf_def apply_ppf_table_def)

text \<open>
  Claim C8, for a disc that has an entry in the table. With the automatic mode off: when a patch file is
  registered it is applied to the image; else, when an archive is registered, the archive
  is fetched, its named member extracted and recorded as a temporary file, and that member
  applied; else a warning is printed, nothing is raised and every file is left as it was;
  and when the fetch of the archive answers with a status other than 200, a warning is
  printed, nothing is raised and every file is left as it was.
\<close>

theorem apply_ppf_table_driven:
  assumes "libcrypt E disc_id = Some entry"
  shows "(\<forall>p fs. ppf entry = Some p \<and> ApplyPPF E (files w) img p = Inr fs \<longrightarrow>
            (\<exists>w'. apply_ppf E w img disc_id magic_word False = Inr w' \<and> files w' = fs \<and>
                  temp_files w' = temp_files w)) \<and>
         (\<forall>url member ret patch fs.
            ppf entry = None \<and> ppfzip entry = Some (url, member) \<and>
            requests_get E url = Inr ret \<and> status_code ret = 200 \<and>
            zip_member E (body ret) member = Inr patch \<and>
            ApplyPPF E ((files w)(member \<mapsto> patch)) img member = Inr fs \<longrightarrow>
            (\<exists>w'. apply_ppf E w img disc_id magic_word False = Inr w' \<and> files w' = fs \<and>
                  temp_files w' = temp_files w @ [member])) \<and>
         (ppf entry = None \<and> ppfzip entry = None \<longrightarrow>
            (\<exists>w'. apply_ppf E w img disc_id magic_word False = Inr w' \<and>
                  files w' = files w \<and> temp_files w' = temp_files w \<and>
                  no_ppf_warning disc_id \<in> set (stdout w'))) \<and>
         (\<forall>url member ret.
            ppf entry = None \<and> ppfzip entry = Some (url, member) \<and>
            requests_get E url = Inr ret \<and> status_code ret \<noteq> 200 \<longrightarrow>
            (\<exists>w'. apply_ppf E w img disc_id magic_word False = Inr w' \<and>
                  files w' = files w \<and> temp_files w' = temp_files w \<and>
                  fetch_warning \<in> set (stdout w')))"
proof (intro conjI allI impI)
  fix p fs
  assume "ppf entry = Some p \<and> ApplyPPF E (files w) img p = Inr fs"
  then show "\<exists>w'. apply_ppf E w img disc_id magic_word False = Inr w' \<and> files w' = fs \<and>
                  temp_files w' = temp_files w"
    using assms
    by (cases "credit entry")
       (simp_all add: apply_ppf_def apply_ppf_table_def bind_err_def Let_def)
next
  fix url member ret patch fs
  assume "ppf entry = None \<and> ppfzip entry = Some (url, member) \<and>
            requests_get E url = Inr ret \<and> status_code ret = 200 \<and>
            zip_member E (body ret) member = Inr patch \<and>
            ApplyPPF E ((files w)(member \<mapsto> patch)) img member = Inr fs"
  then show "\<exists>w'. apply_ppf E w img disc_id magic_word False = Inr w' \<and> files w' = fs \<and>
                  temp_files w' = temp_files w @ [member]"
    using assms
    by (cases "credit entry"; cases "verbose E")
       (simp_all add: apply_ppf_def apply_ppf_table_def bind_err_def Let_def)
next
  assume "ppf entry = None \<and> ppfzip entry = None"
  then show "\<exists>w'. apply_ppf E w img disc_id magic_word False = Inr w' \<and>
                  files w' = files w \<and> temp_files w' = temp_files w \<and>
                  no_ppf_warning disc_id \<in> set (stdout w')"
    using assms
    by (cases "credit entry")
       (simp_all add: apply_ppf_def apply_ppf_table_def Let_def stdout_print)
next
  fix url member ret
  assume "ppf entry = None \<and> ppfzip entry = Some (url, member) \<and>
            requests_get E url = Inr ret \<and> status_code ret \<noteq> 200"
  then show "\<exists>w'. apply_ppf E w img disc_id magic_word False = Inr w' \<and>
                  files w' = files w \<and> temp_files w' = temp_files w \<and>
                  fetch_warning \<in> set (stdout w')"
    using assms
    by (cases "credit entry"; cases "verbose E")
       (simp_all add: apply_ppf_def apply_ppf_table_def bind_err_def Let_def stdout_print)
qed

text \<open>A disc whose archive cannot be fetched and a disc with no patch registered: the
  image keeps its bytes and the warning is printed.\<close>

theorem apply_ppf_table_driven_witness:
  "(\<exists>w'. apply_ppf example_env example_world ''LCP00.bin'' ''SLES-01226'' 0 False = Inr w' \<and>
      files w' ''LCP00.bin'' = Some [1, 2, 3] \<and> temp_files w' = [] \<and>
      fetch_warning \<in> set (stdout w')) \<and>
   (\<exists>w'. apply_ppf example_env example_world ''LCP00.bin'' ''SLES-02529'' 0 False = Inr w' \<and>
      files w' ''LCP00.bin'' = Some [1, 2, 3] \<and> temp_files w' = [] \<and>
      no_ppf_warning ''SLES-02529'' \<in> set (stdout w'))"
proof -
  let ?e1 = "\<lparr>credit = None, ppf = None,
              ppfzip = Some (''https://example.org/p.zip'', ''p.ppf'')\<rparr>"
  let ?e2 = "\<lparr>credit = None, ppf = None, ppfzip = None\<rparr> :: libcrypt_entry"
  have l1: "libcrypt example_env ''SLES-01226'' = Some ?e1"
    and l2: "libcrypt example_env ''SLES-02529'' = Some ?e2"
    by (simp_all add: example_env_def)
  have g: "requests_get example_env ''https://example.org/p.zip''
           = Inr \<lparr>status_code = 404, body = []\<rparr>"
    by (simp add: example_env_def)
  have f: "files example_world ''LCP00.bin'' = Some [1, 2, 3]"
    "temp_files example_world = []"
    by (simp_all add: example_world_def)
  from apply_ppf_table_driven [OF l1, of example_world "''LCP00.bin''" 0] g
  have "\<exists>w'. apply_ppf example_env example_world ''LCP00.bin'' ''SLES-01226'' 0 False = Inr w' \<and>
      files w' = files example_world \<and> temp_files w' = temp_files example_world \<and>
      fetch_warning \<in> set (stdout w')"
    by simp
  moreover
  from apply_ppf_table_driven [OF l2, of example_world "''LCP00.bin''" 0]
  have "\<exists>w'. apply_ppf example_env example_world ''LCP00.bin'' ''SLES-02529'' 0 False = Inr w' \<and>
      files w' = files example_world \<and> temp_files w' = temp_files example_world \<and>
      no_ppf_warning ''SLES-02529'' \<in> set (stdout w')"
    by simp
  ultimately show ?thesis using f by auto
qed

end
